theory Spec2Isabelle
  imports Complex_Main "HOL-Library.AList"
begin

section \<open>JavaScript numbers and arrays\<close>

text \<open>
  The engine of \<^verbatim>\<open>src/lib/ai/predictors.ts\<close> computes on JavaScript numbers.
  A number is modelled as an exact real, or one of the three special values that a
  division by zero produces and that the comparisons of the source then see:
  \<open>Infinity\<close>, \<open>-Infinity\<close> and \<open>NaN\<close>. Rounding to binary64, overflow and the sign
  of zero are not modelled: finite arithmetic is exact. Every zero divisor of this
  program is a length or a frequency, so it is the positive zero.
\<close>

datatype jsnum = Fin real | PInf | NInf | NaN

fun jneg :: "jsnum \<Rightarrow> jsnum" where
  "jneg (Fin a) = Fin (- a)"
| "jneg PInf = NInf"
| "jneg NInf = PInf"
| "jneg NaN = NaN"

fun jadd :: "jsnum \<Rightarrow> jsnum \<Rightarrow> jsnum" where
  "jadd NaN y = NaN"
| "jadd x NaN = NaN"
| "jadd (Fin a) (Fin b) = Fin (a + b)"
| "jadd (Fin a) y = y"
| "jadd x (Fin b) = x"
| "jadd PInf PInf = PInf"
| "jadd NInf NInf = NInf"
| "jadd PInf NInf = NaN"
| "jadd NInf PInf = NaN"

definition jsub :: "jsnum \<Rightarrow> jsnum \<Rightarrow> jsnum" where
  "jsub x y = jadd x (jneg y)"

text \<open>The sign of a number that is not NaN: \<open>-1\<close>, \<open>0\<close> or \<open>1\<close>.\<close>

fun jsign :: "jsnum \<Rightarrow> int" where
  "jsign (Fin a) = (if a < 0 then - 1 else if a = 0 then 0 else 1)"
| "jsign PInf = 1"
| "jsign NInf = - 1"
| "jsign NaN = 0"

definition signed_inf :: "int \<Rightarrow> jsnum" where
  "signed_inf s = (if s < 0 then NInf else PInf)"

fun jmul :: "jsnum \<Rightarrow> jsnum \<Rightarrow> jsnum" where
  "jmul NaN y = NaN"
| "jmul x NaN = NaN"
| "jmul (Fin a) (Fin b) = Fin (a * b)"
| "jmul x y = (if jsign x * jsign y = 0 then NaN else signed_inf (jsign x * jsign y))"

fun jdiv :: "jsnum \<Rightarrow> jsnum \<Rightarrow> jsnum" where
  "jdiv NaN y = NaN"
| "jdiv x NaN = NaN"
| "jdiv (Fin a) (Fin b) =
     (if b = 0 then (if a = 0 then NaN else signed_inf (jsign (Fin a))) else Fin (a / b))"
| "jdiv (Fin a) y = Fin 0"
| "jdiv x (Fin b) = signed_inf (jsign x * (if b < 0 then - 1 else 1))"
| "jdiv x y = NaN"

fun jabs :: "jsnum \<Rightarrow> jsnum" where
  "jabs (Fin a) = Fin \<bar>a\<bar>"
| "jabs PInf = PInf"
| "jabs NInf = PInf"
| "jabs NaN = NaN"

text \<open>\<open>x > y\<close>; every comparison with NaN is false.\<close>

fun jgt :: "jsnum \<Rightarrow> jsnum \<Rightarrow> bool" where
  "jgt NaN y = False"
| "jgt x NaN = False"
| "jgt (Fin a) (Fin b) = (b < a)"
| "jgt PInf y = (y \<noteq> PInf)"
| "jgt x NInf = (x \<noteq> NInf)"
| "jgt x y = False"

definition jlt :: "jsnum \<Rightarrow> jsnum \<Rightarrow> bool" where
  "jlt x y = jgt y x"

definition jge :: "jsnum \<Rightarrow> jsnum \<Rightarrow> bool" where
  "jge x y = (x \<noteq> NaN \<and> y \<noteq> NaN \<and> (jgt x y \<or> x = y))"

text \<open>\<open>Math.min(x, y)\<close> and \<open>Math.max(x, y)\<close>: NaN as soon as one argument is.\<close>

definition jmin :: "jsnum \<Rightarrow> jsnum \<Rightarrow> jsnum" where
  "jmin x y = (if x = NaN \<or> y = NaN then NaN else if jgt x y then y else x)"

definition jmax :: "jsnum \<Rightarrow> jsnum \<Rightarrow> jsnum" where
  "jmax x y = (if x = NaN \<or> y = NaN then NaN else if jgt y x then y else x)"

fun jsqrt :: "jsnum \<Rightarrow> jsnum" where
  "jsqrt (Fin a) = (if a < 0 then NaN else Fin (sqrt a))"
| "jsqrt PInf = PInf"
| "jsqrt NInf = NaN"
| "jsqrt NaN = NaN"

text \<open>\<open>Math.pow(x, n)\<close> for a natural exponent; \<open>Math.pow(x, 0)\<close> is 1 for every \<open>x\<close>.\<close>

primrec jpow :: "jsnum \<Rightarrow> nat \<Rightarrow> jsnum" where
  "jpow x 0 = Fin 1"
| "jpow x (Suc n) = jmul x (jpow x n)"

text \<open>\<open>x || 0\<close> on a number: the falsy numbers are 0 and NaN.\<close>

definition or0 :: "jsnum \<Rightarrow> jsnum" where
  "or0 x = (if x = NaN \<or> x = Fin 0 then Fin 0 else x)"

definition of_count :: "nat \<Rightarrow> jsnum" where
  "of_count n = Fin (real n)"

text \<open>
  A JavaScript array of numbers: a list of cells, \<open>None\<close> for a hole. Reading a hole
  or past the end gives \<open>undefined\<close> (\<open>None\<close>), which arithmetic turns into NaN.
  Writing past the end extends the array, leaving holes. \<open>forEach\<close>, \<open>map\<close> and
  \<open>reduce\<close> skip the holes.
\<close>

type_synonym jsarray = "jsnum option list"

definition arr_get :: "jsarray \<Rightarrow> nat \<Rightarrow> jsnum option" where
  "arr_get a i = (if i < length a then a ! i else None)"

definition arr_set :: "jsarray \<Rightarrow> nat \<Rightarrow> jsnum \<Rightarrow> jsarray" where
  "arr_set a i v =
     (if i < length a then a[i := Some v]
      else a @ replicate (i - length a) None @ [Some v])"

definition to_number :: "jsnum option \<Rightarrow> jsnum" where
  "to_number c = (case c of None \<Rightarrow> NaN | Some x \<Rightarrow> x)"

definition arr_map :: "(jsnum \<Rightarrow> jsnum) \<Rightarrow> jsarray \<Rightarrow> jsarray" where
  "arr_map f a = map (map_option f) a"

text \<open>\<open>a.reduce((sum, v) => sum + v, 0)\<close>\<close>

definition arr_sum :: "jsarray \<Rightarrow> jsnum" where
  "arr_sum a = fold (\<lambda>c s. case c of None \<Rightarrow> s | Some v \<Rightarrow> jadd s v) a (Fin 0)"

text \<open>
  \<open>xs.sort(cmp)\<close>: the sort of the language is stable, and an element moves behind
  another one only when the comparator is positive on the pair (a NaN comparator
  value counts as 0). It is modelled as the stable insertion sort.
\<close>

fun insort_cmp :: "('a \<Rightarrow> 'a \<Rightarrow> jsnum) \<Rightarrow> 'a \<Rightarrow> 'a list \<Rightarrow> 'a list" where
  "insort_cmp cmp x [] = [x]"
| "insort_cmp cmp x (y # ys) =
     (if jgt (cmp x y) (Fin 0) then y # insort_cmp cmp x ys else x # y # ys)"

definition js_sort :: "('a \<Rightarrow> 'a \<Rightarrow> jsnum) \<Rightarrow> 'a list \<Rightarrow> 'a list" where
  "js_sort cmp xs = foldr (insort_cmp cmp) xs []"

text \<open>\<open>xs.slice(-k)\<close> for \<open>k \<ge> 0\<close>: the last \<open>k\<close> elements; \<open>slice(-0)\<close> is \<open>slice(0)\<close>.\<close>

definition slice_last :: "nat \<Rightarrow> 'a list \<Rightarrow> 'a list" where
  "slice_last k xs = (if k = 0 then xs else drop (length xs - k) xs)"

datatype jserror = TypeError

section \<open>Neural pattern recognizer\<close>

text \<open>
  A digit is a natural number; the digits of the market are 0 to 9, and the model
  says what the source does with a larger one (a negative or fractional number is
  outside the model). The pattern table is a \<open>Map\<close> keyed by
  \<open>sequence.join(',')\<close>, which is injective on sequences of naturals, so the key is
  the sequence itself. A \<open>Map\<close> iterates in insertion order: the table is an
  association list, a new key is appended, an existing one updated in place.
\<close>

record Pattern =
  sequence :: "nat list"
  frequency :: nat
  confidence :: jsnum
  lastSeen :: nat
  successRate :: jsnum

type_synonym pattern_table = "(nat list \<times> Pattern) list"

record NeuralPatternRecognizer =
  patterns :: pattern_table
  windowSizes :: "nat list"

definition new_NeuralPatternRecognizer :: NeuralPatternRecognizer where
  "new_NeuralPatternRecognizer = \<lparr>patterns = [], windowSizes = [2, 3, 4, 5]\<rparr>"

text \<open>The body of the inner loop of \<open>train\<close>, at window \<open>windowSize\<close> and index \<open>i\<close>.\<close>

definition train_at :: "nat list \<Rightarrow> nat \<Rightarrow> nat \<Rightarrow> pattern_table \<Rightarrow> pattern_table" where
  "train_at digits windowSize i tab =
     (let sq = take windowSize (drop i digits) in
      case map_of tab sq of
        Some existing \<Rightarrow>
          AList.update sq (existing\<lparr>frequency := frequency existing + 1, lastSeen := i\<rparr>) tab
      | None \<Rightarrow>
          AList.update sq
            \<lparr>sequence = sq, frequency = 1, confidence = Fin 0, lastSeen = i,
             successRate = Fin 0\<rparr> tab)"

text \<open>\<open>for (let i = 0; i <= digits.length - windowSize; i++)\<close>\<close>

definition train_window :: "nat list \<Rightarrow> nat \<Rightarrow> pattern_table \<Rightarrow> pattern_table" where
  "train_window digits windowSize tab =
     fold (train_at digits windowSize) [0 ..< Suc (length digits) - windowSize] tab"

definition score_pattern :: "nat \<Rightarrow> Pattern \<Rightarrow> Pattern" where
  "score_pattern n p =
     (let recency = jmul (jdiv (of_count (lastSeen p)) (of_count n)) (Fin 100);
          frequency' = jmul (jdiv (of_count (frequency p)) (of_count n)) (Fin 1000)
      in p\<lparr>confidence := jadd (jmul frequency' (Fin 0.6)) (jmul recency (Fin 0.4))\<rparr>)"

definition train :: "NeuralPatternRecognizer \<Rightarrow> nat list \<Rightarrow> NeuralPatternRecognizer" where
  "train r digits =
     (let tab = fold (train_window digits) (windowSizes r) (patterns r)
      in r\<lparr>patterns := map (\<lambda>(k, p). (k, score_pattern (length digits) p)) tab\<rparr>)"

text \<open>
  \<open>detectPatterns\<close> and \<open>predictNext\<close> are methods of the recognizer: the model gives
  each the recognizer and returns the result together with the recognizer after the
  call. The arguments that have a default in the source (\<open>minConfidence = 60\<close>, and
  below \<open>steps = 5\<close> and \<open>strategy = 'match'\<close>) are plain arguments of the model.
\<close>

definition detect_window ::
  "pattern_table \<Rightarrow> nat list \<Rightarrow> jsnum \<Rightarrow> nat \<Rightarrow> Pattern list \<Rightarrow> Pattern list" where
  "detect_window tab recentDigits minConfidence windowSize detected =
     (if length recentDigits < windowSize then detected
      else case map_of tab (slice_last windowSize recentDigits) of
             None \<Rightarrow> detected
           | Some pattern \<Rightarrow>
               if jge (confidence pattern) minConfidence then detected @ [pattern]
               else detected)"

definition detectPatterns ::
  "NeuralPatternRecognizer \<Rightarrow> nat list \<Rightarrow> jsnum \<Rightarrow> Pattern list \<times> NeuralPatternRecognizer" where
  "detectPatterns r recentDigits minConfidence =
     (let detected = fold (detect_window (patterns r) recentDigits minConfidence)
                       (windowSizes r) []
      in (js_sort (\<lambda>a b. jsub (confidence b) (confidence a)) detected, r))"

text \<open>
  The body of the \<open>forEach\<close> of \<open>predictNext\<close>. A pattern with the empty sequence
  (none is ever stored by \<open>train\<close>) would write the key \<open>undefined\<close>, which no digit
  reads: the map of digits is unchanged.
\<close>

definition predict_pattern ::
  "nat list \<Rightarrow> Pattern \<Rightarrow> (nat \<rightharpoonup> jsnum) \<Rightarrow> (nat \<rightharpoonup> jsnum)" where
  "predict_pattern recentDigits pattern predictions =
     (let seqLength = length (sequence pattern) in
      if seqLength = 0 then predictions
      else if length recentDigits < seqLength - 1 then predictions
      else if slice_last (seqLength - 1) recentDigits = butlast (sequence pattern) then
        (let nextDigit = last (sequence pattern); weight = confidence pattern in
         predictions(nextDigit \<mapsto> jadd (or0 (to_number (predictions nextDigit))) weight))
      else predictions)"

definition predictNext ::
  "NeuralPatternRecognizer \<Rightarrow> nat list \<Rightarrow> (nat \<rightharpoonup> jsnum) \<times> NeuralPatternRecognizer" where
  "predictNext r recentDigits =
     (fold (predict_pattern recentDigits) (map snd (patterns r)) Map.empty, r)"

section \<open>Multi-step predictor\<close>

text \<open>\<open>const counts = new Array(10).fill(0); digits.forEach(d => counts[d]++)\<close>\<close>

definition count_digits :: "nat list \<Rightarrow> jsarray" where
  "count_digits digits =
     fold (\<lambda>d counts. arr_set counts d (jadd (to_number (arr_get counts d)) (Fin 1)))
       digits (replicate 10 (Some (Fin 0)))"

datatype Confidence = very_high | high | medium | low

record MultiStepPrediction =
  step :: nat
  digit :: nat
  probability :: jsnum
  confidence :: Confidence
  "method" :: string

record MultiStepPredictor =
  patternRecognizer :: NeuralPatternRecognizer
  markovChain :: "jsarray list"

text \<open>
  The counting loop of \<open>buildEnhancedMarkov\<close> over the indices still to visit. A
  \<open>from\<close> digit that is not a row of the matrix makes \<open>transitions[from][to]\<close> a
  property read on \<open>undefined\<close>: a TypeError.
\<close>

fun count_transitions ::
  "nat list \<Rightarrow> nat list \<Rightarrow> jsarray list \<times> jsarray list
   \<Rightarrow> jserror + (jsarray list \<times> jsarray list)" where
  "count_transitions digits [] m = Inr m"
| "count_transitions digits (i # rest) (transitions, neuralWeights) =
     (let from = digits ! i;
          to = digits ! (i + 1);
          weight = jpow (Fin 0.99) (length digits - 1 - i)
      in if from < length transitions \<and> from < length neuralWeights then
           count_transitions digits rest
             (transitions[from := arr_set (transitions ! from) to
                 (jadd (to_number (arr_get (transitions ! from) to)) weight)],
              neuralWeights[from := arr_set (neuralWeights ! from) to
                 (jadd (to_number (arr_get (neuralWeights ! from) to)) weight)])
         else Inl TypeError)"

definition zero_matrix :: "jsarray list" where
  "zero_matrix = replicate 10 (replicate 10 (Some (Fin 0)))"

text \<open>\<open>const baseProb = total > 0 ? (count / total) * 100 : 0\<close>\<close>

definition baseProb :: "jsnum \<Rightarrow> jsnum \<Rightarrow> jsnum" where
  "baseProb total' count =
     (if jgt total' (Fin 0) then jmul (jdiv count total') (Fin 100) else Fin 0)"

definition markov_cell :: "jsarray list \<Rightarrow> nat \<Rightarrow> jsnum \<Rightarrow> nat \<Rightarrow> jsnum \<Rightarrow> jsnum" where
  "markov_cell neuralWeights from total' to count =
     (let neuralBoost = jdiv (to_number (arr_get (neuralWeights ! from) to)) (Fin 10)
      in jmin (jadd (baseProb total' count) neuralBoost) (Fin 100))"

definition markov_row :: "jsarray list \<Rightarrow> nat \<Rightarrow> jsarray \<Rightarrow> jsarray" where
  "markov_row neuralWeights from row =
     (let total' = arr_sum row
      in map (\<lambda>to. map_option (markov_cell neuralWeights from total' to) (row ! to))
           [0 ..< length row])"

definition buildEnhancedMarkov :: "nat list \<Rightarrow> jserror + jsarray list" where
  "buildEnhancedMarkov digits =
     (case count_transitions digits [0 ..< length digits - 1] (zero_matrix, zero_matrix) of
        Inl e \<Rightarrow> Inl e
      | Inr (transitions, neuralWeights) \<Rightarrow>
          Inr (map (\<lambda>from. markov_row neuralWeights from (transitions ! from))
                 [0 ..< length transitions]))"

text \<open>The constructor: it throws when \<open>buildEnhancedMarkov\<close> does.\<close>

definition new_MultiStepPredictor :: "nat list \<Rightarrow> jserror + MultiStepPredictor" where
  "new_MultiStepPredictor historicalDigits =
     (let recognizer = train new_NeuralPatternRecognizer historicalDigits
      in case buildEnhancedMarkov historicalDigits of
           Inl e \<Rightarrow> Inl e
         | Inr m \<Rightarrow> Inr \<lparr>patternRecognizer = recognizer, markovChain = m\<rparr>)"

definition analyzeFrequency :: "nat list \<Rightarrow> jsarray" where
  "analyzeFrequency digits =
     (let counts = count_digits digits; total' = length digits
      in arr_map (\<lambda>count. jmul (jdiv count (of_count total')) (Fin 100)) counts)"

definition ensemble_score :: "(nat \<rightharpoonup> jsnum) \<Rightarrow> jsarray \<Rightarrow> jsarray \<Rightarrow> nat \<Rightarrow> jsnum" where
  "ensemble_score patternPreds markovProbs freqAnalysis d =
     (let patternScore = or0 (to_number (patternPreds d));
          markovScore = or0 (to_number (arr_get markovProbs d));
          freqScore = or0 (to_number (arr_get freqAnalysis d))
      in jadd (jadd (jmul patternScore (Fin 0.5)) (jmul markovScore (Fin 0.35)))
           (jmul freqScore (Fin 0.15)))"

definition confidence_of :: "jsnum \<Rightarrow> Confidence" where
  "confidence_of score =
     (if jge score (Fin 80) then very_high
      else if jge score (Fin 65) then high
      else if jge score (Fin 50) then medium
      else low)"

text \<open>
  \<open>this.markovChain[lastDigit]\<close>: \<open>undefined\<close> when the working sequence is empty
  (\<open>lastDigit\<close> is then \<open>undefined\<close>) or when the last digit is not a row.
\<close>

definition markov_lookup :: "jsarray list \<Rightarrow> nat list \<Rightarrow> jsarray option" where
  "markov_lookup chain currentDigits =
     (if currentDigits = [] then None
      else if last currentDigits < length chain then Some (chain ! last currentDigits)
      else None)"

text \<open>
  One iteration of the loop of \<open>predictNextN\<close>, up to \<open>const [predictedDigit, score] =
  sorted[0]\<close>. Reading \<open>markovProbs[digit]\<close> on \<open>undefined\<close> throws a TypeError, and
  so would destructuring an absent \<open>sorted[0]\<close>.
\<close>

definition ensemble_entries :: "MultiStepPredictor \<Rightarrow> nat list \<Rightarrow> jsarray \<Rightarrow> (nat \<times> jsnum) list" where
  "ensemble_entries p currentDigits markovProbs =
     (let patternPreds = fst (predictNext (patternRecognizer p) currentDigits);
          freqAnalysis = analyzeFrequency currentDigits
      in map (\<lambda>d. (d, ensemble_score patternPreds markovProbs freqAnalysis d)) [0 ..< 10])"

definition predict_step :: "MultiStepPredictor \<Rightarrow> nat list \<Rightarrow> jserror + (nat \<times> jsnum)" where
  "predict_step p currentDigits =
     (case markov_lookup (markovChain p) currentDigits of
        None \<Rightarrow> Inl TypeError
      | Some markovProbs \<Rightarrow>
          (case js_sort (\<lambda>a b. jsub (snd b) (snd a))
                  (ensemble_entries p currentDigits markovProbs) of
             [] \<Rightarrow> Inl TypeError
           | (predictedDigit, score) # _ \<Rightarrow> Inr (predictedDigit, score)))"

text \<open>The record pushed at step \<open>stp\<close> for the digit and score selected.\<close>

definition emit :: "nat \<Rightarrow> nat \<Rightarrow> jsnum \<Rightarrow> MultiStepPrediction" where
  "emit stp predictedDigit score =
     \<lparr>step = stp, digit = predictedDigit, probability = score,
      confidence = confidence_of score,
      method = ''Ensemble (Pattern + Markov + Frequency)''\<rparr>"

text \<open>\<open>for (let step = 1; step <= steps; step++)\<close>, from the state at the loop head.\<close>

function predict_loop ::
  "MultiStepPredictor \<Rightarrow> nat \<Rightarrow> nat \<Rightarrow> nat list \<Rightarrow> MultiStepPrediction list
   \<Rightarrow> jserror + MultiStepPrediction list" where
  "predict_loop p steps stp currentDigits predictions =
     (if stp \<le> steps then
        (case predict_step p currentDigits of
           Inl e \<Rightarrow> Inl e
         | Inr (predictedDigit, score) \<Rightarrow>
             (let predictions' = predictions @ [emit stp predictedDigit score];
                  currentDigits' = currentDigits @ [predictedDigit]
              in if confidence_of score = low \<and> 3 \<le> stp then Inr predictions'
                 else predict_loop p steps (Suc stp) currentDigits' predictions'))
      else Inr predictions)"
  by pat_completeness auto
termination
  by (relation "measure (\<lambda>(p, steps, stp, c, ps). Suc steps - stp)") auto

declare predict_loop.simps [simp del]

definition predictNextN ::
  "MultiStepPredictor \<Rightarrow> nat list \<Rightarrow> nat \<Rightarrow> jserror + MultiStepPrediction list" where
  "predictNextN p recentDigits steps = predict_loop p steps 1 recentDigits []"

section \<open>Anomaly detector\<close>

datatype AnomalyType = FrequencyAnomaly | VolatilityAnomaly | PatternAnomaly | DistributionAnomaly

datatype Severity = Low | Medium | High | Critical

text \<open>
  The description and the recommendation of an anomaly are template strings; the
  model keeps the template and the values it interpolates instead of the rendered
  text. The unusual patterns are the strings of \<open>detectUnusualPatterns\<close>.
\<close>

datatype UnusualPattern =
    Consecutive nat nat
  | PerfectAlternation nat nat
  | AscendingSequence "nat list"
  | DescendingSequence "nat list"

datatype Description =
    RateText nat jsnum bool
  | VolatilityText bool jsnum
  | UnusualText UnusualPattern
  | NonUniformText jsnum

datatype Recommendation =
    ConsiderDiffering nat
  | ConsiderMatching nat
  | ReduceStake
  | StableMarket
  | MonitorPattern
  | Dominating int

record Anomaly =
  type :: AnomalyType
  severity :: Severity
  description :: Description
  affectedDigits :: "int list"
  recommendation :: Recommendation

record AnomalyDetector =
  baselineFrequency :: jsarray
  baselineVolatility :: jsnum

definition new_AnomalyDetector :: AnomalyDetector where
  "new_AnomalyDetector =
     \<lparr>baselineFrequency = replicate 10 (Some (Fin 10)), baselineVolatility = Fin 0\<rparr>"

definition calculateStdDev :: "jsarray \<Rightarrow> jsnum \<Rightarrow> jsnum" where
  "calculateStdDev values mean =
     (let squareDiffs = arr_map (\<lambda>v. jpow (jsub v mean) 2) values;
          avgSquareDiff = jdiv (arr_sum squareDiffs) (of_count (length values))
      in jsqrt avgSquareDiff)"

definition calibrate :: "AnomalyDetector \<Rightarrow> nat list \<Rightarrow> AnomalyDetector" where
  "calibrate det historicalDigits =
     (let counts = count_digits historicalDigits;
          freq = arr_map (\<lambda>c. jmul (jdiv c (of_count (length historicalDigits))) (Fin 100))
                   counts
      in det\<lparr>baselineFrequency := freq, baselineVolatility := calculateStdDev freq (Fin 10)\<rparr>)"

text \<open>The private \<open>analyzeFrequency\<close> of the detector.\<close>

definition detector_analyzeFrequency :: "nat list \<Rightarrow> jsarray" where
  "detector_analyzeFrequency digits =
     arr_map (\<lambda>c. jmul (jdiv c (of_count (length digits))) (Fin 100)) (count_digits digits)"

text \<open>The body of \<open>currentFreq.forEach((freq, digit) => ...)\<close>.\<close>

definition frequency_check :: "AnomalyDetector \<Rightarrow> nat \<Rightarrow> jsnum \<Rightarrow> Anomaly list" where
  "frequency_check det d freq =
     (let baseline = to_number (arr_get (baselineFrequency det) d);
          deviation = jabs (jsub freq baseline);
          percentChange = jmul (jdiv deviation baseline) (Fin 100)
      in if jgt percentChange (Fin 50) then
           [\<lparr>type = FrequencyAnomaly,
             severity = (if jgt percentChange (Fin 100) then Critical
                         else if jgt percentChange (Fin 75) then High else Medium),
             description = RateText d percentChange (jgt freq baseline),
             affectedDigits = [int d],
             recommendation =
               (if jgt freq baseline then ConsiderDiffering d else ConsiderMatching d)\<rparr>]
         else [])"

definition frequency_anomalies :: "AnomalyDetector \<Rightarrow> jsarray \<Rightarrow> Anomaly list" where
  "frequency_anomalies det currentFreq =
     concat (map (\<lambda>d. case currentFreq ! d of None \<Rightarrow> [] | Some freq \<Rightarrow> frequency_check det d freq)
               [0 ..< length currentFreq])"

definition volatility_anomalies :: "AnomalyDetector \<Rightarrow> jsarray \<Rightarrow> Anomaly list" where
  "volatility_anomalies det currentFreq =
     (let currentVolatility = calculateStdDev currentFreq (Fin 10);
          volatilityChange = jabs (jsub currentVolatility (baselineVolatility det))
      in if jgt volatilityChange (jmul (baselineVolatility det) (Fin 0.5)) then
           [\<lparr>type = VolatilityAnomaly,
             severity = (if jgt volatilityChange (baselineVolatility det) then High else Medium),
             description =
               VolatilityText (jgt currentVolatility (baselineVolatility det))
                 (jmul (jdiv volatilityChange (baselineVolatility det)) (Fin 100)),
             affectedDigits = [],
             recommendation =
               (if jgt currentVolatility (baselineVolatility det) then ReduceStake
                else StableMarket)\<rparr>]
         else [])"

text \<open>The streak loop: \<open>for (let i = 1; i < digits.length; i++)\<close>.\<close>

definition streak_step ::
  "nat list \<Rightarrow> nat \<Rightarrow> nat \<times> UnusualPattern list \<Rightarrow> nat \<times> UnusualPattern list" where
  "streak_step digits i st =
     (case st of (currentStreak, found) \<Rightarrow>
        if digits ! i = digits ! (i - 1) then
          (if 5 \<le> currentStreak + 1
           then (currentStreak + 1, found @ [Consecutive (currentStreak + 1) (digits ! i)])
           else (currentStreak + 1, found))
        else (1, found))"

definition alternation_check :: "nat list \<Rightarrow> UnusualPattern list" where
  "alternation_check digits =
     (if 6 \<le> length digits then
        (let last6 = slice_last 6 digits in
         if last6 ! 0 = last6 ! 2 \<and> last6 ! 2 = last6 ! 4 \<and> last6 ! 1 = last6 ! 3 \<and>
            last6 ! 3 = last6 ! 5 \<and> last6 ! 0 \<noteq> last6 ! 1
         then [PerfectAlternation (last6 ! 0) (last6 ! 1)] else [])
      else [])"

definition run_check :: "nat list \<Rightarrow> UnusualPattern list" where
  "run_check digits =
     (if 4 \<le> length digits then
        (let last4 = slice_last 4 digits;
             isAscending = (\<forall>i \<in> set [0 ..< length last4]. i = 0 \<or> last4 ! i = last4 ! (i - 1) + 1);
             isDescending = (\<forall>i \<in> set [0 ..< length last4]. i = 0 \<or> last4 ! i + 1 = last4 ! (i - 1))
         in (if isAscending then [AscendingSequence last4] else []) @
            (if isDescending then [DescendingSequence last4] else []))
      else [])"

definition detectUnusualPatterns :: "nat list \<Rightarrow> UnusualPattern list" where
  "detectUnusualPatterns digits =
     snd (fold (streak_step digits) [1 ..< length digits] (1, [])) @
     alternation_check digits @ run_check digits"

definition pattern_anomalies :: "nat list \<Rightarrow> Anomaly list" where
  "pattern_anomalies digits =
     map (\<lambda>pat. \<lparr>type = PatternAnomaly, severity = Medium, description = UnusualText pat,
                 affectedDigits = [], recommendation = MonitorPattern\<rparr>)
       (detectUnusualPatterns digits)"

definition calculateUniformity :: "jsarray \<Rightarrow> jsnum" where
  "calculateUniformity frequencies =
     (let ideal = Fin 10;
          deviations = arr_map (\<lambda>f. jabs (jsub f ideal)) frequencies;
          avgDeviation = jdiv (arr_sum deviations) (Fin 10)
      in jmax (Fin 0) (jsub (Fin 1) (jdiv avgDeviation ideal)))"

text \<open>
  \<open>Math.max(...a)\<close>: spreading turns a hole into \<open>undefined\<close>, hence NaN.
  \<open>a.indexOf(x)\<close> compares with \<open>===\<close>, so NaN is never found, and gives \<open>-1\<close> then.
\<close>

definition arr_max :: "jsarray \<Rightarrow> jsnum" where
  "arr_max a = fold (\<lambda>c m. jmax m (to_number c)) a NInf"

fun index_from :: "jsarray \<Rightarrow> jsnum \<Rightarrow> int \<Rightarrow> int" where
  "index_from [] x i = - 1"
| "index_from (c # cs) x i =
     (if x \<noteq> NaN \<and> c = Some x then i else index_from cs x (i + 1))"

definition indexOf :: "jsarray \<Rightarrow> jsnum \<Rightarrow> int" where
  "indexOf a x = index_from a x 0"

definition distribution_anomalies :: "jsarray \<Rightarrow> Anomaly list" where
  "distribution_anomalies currentFreq =
     (let uniformityScore = calculateUniformity currentFreq
      in if jlt uniformityScore (Fin 0.7) then
           (let dominant = indexOf currentFreq (arr_max currentFreq)
            in [\<lparr>type = DistributionAnomaly,
                 severity = (if jlt uniformityScore (Fin 0.5) then High else Medium),
                 description = NonUniformText (jmul uniformityScore (Fin 100)),
                 affectedDigits = [dominant],
                 recommendation = Dominating dominant\<rparr>])
         else [])"

text \<open>The anomalies in detection order, before the final sort.\<close>

definition detected_anomalies :: "AnomalyDetector \<Rightarrow> nat list \<Rightarrow> Anomaly list" where
  "detected_anomalies det recentDigits =
     (let currentFreq = detector_analyzeFrequency recentDigits
      in frequency_anomalies det currentFreq @ volatility_anomalies det currentFreq @
         pattern_anomalies recentDigits @ distribution_anomalies currentFreq)"

fun severityOrder :: "Severity \<Rightarrow> int" where
  "severityOrder Critical = 4"
| "severityOrder High = 3"
| "severityOrder Medium = 2"
| "severityOrder Low = 1"

definition detect :: "AnomalyDetector \<Rightarrow> nat list \<Rightarrow> Anomaly list" where
  "detect det recentDigits =
     js_sort (\<lambda>a b. Fin (real_of_int (severityOrder (severity b) - severityOrder (severity a))))
       (detected_anomalies det recentDigits)"

section \<open>Backtesting engine\<close>

datatype Strategy = Match | Differ

record BacktestResult =
  accuracy :: jsnum
  precision :: jsnum
  recall :: jsnum
  f1Score :: jsnum
  truePositives :: nat
  falsePositives :: nat
  trueNegatives :: nat
  falseNegatives :: nat
  profitLoss :: jsnum

text \<open>
  The engine only calls \<open>predictor.predictNextN\<close>, so the predictor is given as that
  method: for the class above it is \<^term>\<open>predictNextN p\<close>.
\<close>

type_synonym predictor = "nat list \<Rightarrow> nat \<Rightarrow> jserror + MultiStepPrediction list"

text \<open>\<open>for (let i = 50; i < testData.length - 1; i++)\<close>\<close>

definition scored_indices :: "nat list \<Rightarrow> nat list" where
  "scored_indices testData = [50 ..< length testData - 1]"

text \<open>
  A hit or a miss under the strategy. The loop state is \<open>(truePositives,
  falsePositives, profitLoss)\<close>; \<open>trueNegatives\<close> and \<open>falseNegatives\<close> are the
  constants 0 of the source.
\<close>

definition settle :: "Strategy \<Rightarrow> nat \<Rightarrow> nat \<Rightarrow> nat \<times> nat \<times> jsnum \<Rightarrow> nat \<times> nat \<times> jsnum" where
  "settle strategy predicted actual st =
     (case st of (tp, fp, pl) \<Rightarrow>
        if strategy = Match then
          (if predicted = actual
           then (tp + 1, fp, jadd pl (Fin 0.95))
           else (tp, fp + 1, jsub pl (Fin 1.0)))
        else
          (if predicted \<noteq> actual
           then (tp + 1, fp, jadd pl (Fin 0.9))
           else (tp, fp + 1, jsub pl (Fin 1.0))))"

fun backtest_loop ::
  "predictor \<Rightarrow> nat list \<Rightarrow> Strategy \<Rightarrow> nat list \<Rightarrow> nat \<times> nat \<times> jsnum
   \<Rightarrow> jserror + (nat \<times> nat \<times> jsnum)" where
  "backtest_loop predictor testData strategy [] st = Inr st"
| "backtest_loop predictor testData strategy (i # rest) st =
     (let historical = take i testData; actual = testData ! i in
      case predictor historical 1 of
        Inl e \<Rightarrow> Inl e
      | Inr [] \<Rightarrow> backtest_loop predictor testData strategy rest st
      | Inr (first # others) \<Rightarrow>
          backtest_loop predictor testData strategy rest (settle strategy (digit first) actual st))"

definition metrics :: "nat \<times> nat \<times> jsnum \<Rightarrow> BacktestResult" where
  "metrics st =
     (case st of (tp, fp, pl) \<Rightarrow>
        let tn = 0; fn = 0;
            total' = tp + fp + tn + fn;
            acc = jmul (jdiv (of_count (tp + tn)) (of_count total')) (Fin 100);
            prec = jmul (jdiv (of_count tp) (of_count (tp + fp))) (Fin 100);
            rcl = jmul (jdiv (of_count tp) (of_count (tp + fn))) (Fin 100);
            f1 = jdiv (jmul (jmul (Fin 2) prec) rcl) (jadd prec rcl)
        in \<lparr>accuracy = acc, precision = prec, recall = rcl, f1Score = f1,
            truePositives = tp, falsePositives = fp,
            trueNegatives = tn, falseNegatives = fn,
            profitLoss = pl\<rparr>)"

definition backtest :: "predictor \<Rightarrow> nat list \<Rightarrow> Strategy \<Rightarrow> jserror + BacktestResult" where
  "backtest predictor testData strategy =
     (case backtest_loop predictor testData strategy (scored_indices testData) (0, 0, Fin 0) of
        Inl e \<Rightarrow> Inl e
      | Inr st \<Rightarrow> Inr (metrics st))"

section \<open>Predicates of the specification\<close>

text \<open>
  The ten cells of an array that the digits 0 to 9 index hold finite numbers; and
  finite numbers of at most 100.
\<close>

definition finite_cells :: "jsarray \<Rightarrow> bool" where
  "finite_cells a = (\<forall>j < 10. \<exists>w. arr_get a j = Some (Fin w))"

definition bounded_cells :: "jsarray \<Rightarrow> bool" where
  "bounded_cells a = (\<forall>j < 10. \<exists>w. arr_get a j = Some (Fin w) \<and> w \<le> 100)"

text \<open>Every confidence of the table is a finite number.\<close>

definition finite_table :: "pattern_table \<Rightarrow> bool" where
  "finite_table tab = (\<forall>q \<in> set (map snd tab). \<exists>c. Pattern.confidence q = Fin c)"

text \<open>
  What the constructor establishes: a matrix of ten rows with finite cells for the
  ten digits, and a pattern table of finite confidences.
\<close>

definition well_formed :: "MultiStepPredictor \<Rightarrow> bool" where
  "well_formed p =
     (length (markovChain p) = 10 \<and> (\<forall>row \<in> set (markovChain p). finite_cells row) \<and>
      finite_table (patterns (patternRecognizer p)))"

text \<open>
  The pattern score of a digit: the weight \<open>predictNext\<close> accumulated for it, 0 when
  no pattern prefix matches.
\<close>

definition pattern_weight :: "NeuralPatternRecognizer \<Rightarrow> nat list \<Rightarrow> nat \<Rightarrow> jsnum" where
  "pattern_weight r cur d = (case fst (predictNext r cur) d of None \<Rightarrow> Fin 0 | Some w \<Rightarrow> w)"

text \<open>
  The selection of one step, as the specification words it: on the working sequence
  \<open>cur\<close> the ensemble score of every digit is the weighted sum of the three
  estimators, and the digit \<open>d\<close> is emitted with score \<open>s\<close> when \<open>s\<close> is the score of
  \<open>d\<close>, no digit scores higher, and every smaller digit scores strictly lower.
\<close>

definition ensemble_spec ::
  "MultiStepPredictor \<Rightarrow> nat list \<Rightarrow> nat \<Rightarrow> jsnum \<Rightarrow> bool" where
  "ensemble_spec p cur d s =
     (\<exists>pat mk. (\<forall>j < 10. pattern_weight (patternRecognizer p) cur j = Fin (pat j)) \<and>
        (\<forall>j < 10. arr_get (markovChain p ! last cur) j = Some (Fin (mk j))) \<and>
        (let score = (\<lambda>j. 0.5 * pat j + 0.35 * mk j
                            + 0.15 * (real (count_list cur j) / real (length cur) * 100))
         in (\<forall>j < 10. ensemble_score (fst (predictNext (patternRecognizer p) cur))
                          (markovChain p ! last cur) (analyzeFrequency cur) j = Fin (score j)) \<and>
            d < 10 \<and> s = Fin (score d) \<and> (\<forall>j < 10. score j \<le> score d) \<and>
            (\<forall>j < d. score j < score d)))"



text \<open>
  The starting indices at which \<open>key\<close> occurs in \<open>digits\<close> as a window, in increasing
  order; and the table entry of a key counted at the indices \<open>occ\<close>, before the
  confidence pass.
\<close>

definition occurrences :: "nat list \<Rightarrow> nat list \<Rightarrow> nat list" where
  "occurrences digits key =
     filter (\<lambda>i. take (length key) (drop i digits) = key)
       [0 ..< Suc (length digits) - length key]"

definition counted :: "nat list \<Rightarrow> nat list \<Rightarrow> Pattern option" where
  "counted key occ =
     (if occ = [] then None
      else Some \<lparr>sequence = key, frequency = length occ, confidence = Fin 0,
                 lastSeen = last occ, successRate = Fin 0\<rparr>)"

section \<open>Arrays and sorting\<close>

lemma arr_get_arr_set: "arr_get (arr_set a i v) j = (if j = i then Some v else arr_get a j)"
  by (auto simp: arr_get_def arr_set_def nth_append nth_Cons')

lemma arr_get_count_fold:
  assumes "\<forall>j < 10. arr_get a j = Some (Fin (c j))"
  shows "\<forall>j < 10. arr_get (fold (\<lambda>d counts. arr_set counts d (jadd (to_number (arr_get counts d)) (Fin 1))) ds a) j
           = Some (Fin (c j + real (count_list ds j)))"
  using assms
proof (induction ds arbitrary: a c)
  case Nil
  then show ?case by simp
next
  case (Cons d ds)
  let ?a = "arr_set a d (jadd (to_number (arr_get a d)) (Fin 1))"
  have "\<forall>j < 10. arr_get ?a j = Some (Fin (c j + (if j = d then 1 else 0)))"
    using Cons.prems by (auto simp: arr_get_arr_set to_number_def)
  from Cons.IH[OF this] show ?case by (auto simp: algebra_simps)
qed

lemma arr_get_count_digits:
  "j < 10 \<Longrightarrow> arr_get (count_digits ds) j = Some (Fin (real (count_list ds j)))"
  using arr_get_count_fold[of "replicate 10 (Some (Fin 0))" "\<lambda>_. 0" ds]
  by (simp add: count_digits_def arr_get_def)

lemma arr_get_arr_map: "arr_get (arr_map f a) j = map_option f (arr_get a j)"
  by (simp add: arr_get_def arr_map_def)

lemma arr_get_analyzeFrequency:
  "j < 10 \<Longrightarrow> ds \<noteq> [] \<Longrightarrow>
   arr_get (analyzeFrequency ds) j = Some (Fin (real (count_list ds j) / real (length ds) * 100))"
  by (simp add: analyzeFrequency_def arr_get_arr_map arr_get_count_digits of_count_def)

lemma insort_cmp_not_Nil: "insort_cmp cmp x ys \<noteq> []"
  by (cases ys) auto

lemma hd_insort_cmp:
  "hd (insort_cmp cmp x ys) = (if ys \<noteq> [] \<and> jgt (cmp x (hd ys)) (Fin 0) then hd ys else x)"
  by (cases ys) auto

lemma js_sort_Cons: "js_sort cmp (x # xs) = insort_cmp cmp x (js_sort cmp xs)"
  by (simp add: js_sort_def)

lemma js_sort_Nil: "js_sort cmp [] = []"
  by (simp add: js_sort_def)

lemma js_sort_eq_Nil: "js_sort cmp xs = [] \<longleftrightarrow> xs = []"
  by (cases xs) (simp_all add: js_sort_Nil js_sort_Cons insort_cmp_not_Nil)

text \<open>The head of a list of scored entries sorted by descending score is the first entry of maximal score.\<close>

lemma hd_js_sort_scores:
  fixes f :: "nat \<Rightarrow> real"
  assumes "ds \<noteq> []"
  shows "\<exists>i < length ds.
           hd (js_sort (\<lambda>a b. jsub (snd b) (snd a)) (map (\<lambda>d. (d, Fin (f d))) ds)) = (ds ! i, Fin (f (ds ! i))) \<and>
           (\<forall>j < length ds. f (ds ! j) \<le> f (ds ! i)) \<and>
           (\<forall>j < i. f (ds ! j) < f (ds ! i))"
  using assms
proof (induction ds)
  case Nil
  then show ?case by simp
next
  case (Cons x xs)
  let ?cmp = "\<lambda>a b :: nat \<times> jsnum. jsub (snd b) (snd a)"
  let ?g = "\<lambda>d. (d, Fin (f d))"
  show ?case
  proof (cases "xs = []")
    case True
    then show ?thesis by (simp add: js_sort_Cons js_sort_Nil)
  next
    case False
    from Cons.IH[OF False] obtain i where i: "i < length xs"
      and h: "hd (js_sort ?cmp (map ?g xs)) = (xs ! i, Fin (f (xs ! i)))"
      and mx: "\<forall>j < length xs. f (xs ! j) \<le> f (xs ! i)"
      and fst: "\<forall>j < i. f (xs ! j) < f (xs ! i)" by blast
    have ne: "js_sort ?cmp (map ?g xs) \<noteq> []" using False by (simp add: js_sort_eq_Nil)
    have hd_eq: "hd (js_sort ?cmp (map ?g (x # xs)))
        = (if f x < f (xs ! i) then (xs ! i, Fin (f (xs ! i))) else (x, Fin (f x)))"
      using ne h by (simp add: js_sort_Cons hd_insort_cmp jsub_def)
    show ?thesis
    proof (cases "f x < f (xs ! i)")
      case True
      have "\<forall>j < length (x # xs). f ((x # xs) ! j) \<le> f ((x # xs) ! Suc i)"
        using True mx by (auto simp: nth_Cons')
      moreover have "\<forall>j < Suc i. f ((x # xs) ! j) < f ((x # xs) ! Suc i)"
        using True fst by (auto simp: nth_Cons' less_Suc_eq_0_disj)
      ultimately show ?thesis using hd_eq True i
        by (intro exI[of _ "Suc i"]) simp
    next
      case False
      have "\<forall>j < length (x # xs). f ((x # xs) ! j) \<le> f ((x # xs) ! 0)"
      proof (intro allI impI)
        fix j assume "j < length (x # xs)"
        then show "f ((x # xs) ! j) \<le> f ((x # xs) ! 0)"
          using False mx by (cases j) (auto intro: order_trans[of _ "f (xs ! i)"])
      qed
      then show ?thesis using hd_eq False
        by (intro exI[of _ 0]) simp
    qed
  qed
qed

section \<open>Finite numbers in the predictor\<close>

lemma jpow_Fin: "jpow (Fin a) n = Fin (a ^ n)"
  by (induction n) simp_all

lemma score_pattern_confidence:
  "n \<noteq> 0 \<Longrightarrow> Pattern.confidence (score_pattern n q)
     = Fin (real (frequency q) / real n * 1000 * 0.6 + real (lastSeen q) / real n * 100 * 0.4)"
  by (simp add: score_pattern_def of_count_def)

lemma patterns_train:
  "patterns (train r h) =
     map (\<lambda>(k, q). (k, score_pattern (length h) q))
       (fold (train_window h) (windowSizes r) (patterns r))"
  by (simp add: train_def)

lemma train_window_short: "length h < w \<Longrightarrow> train_window h w tab = tab"
  by (simp add: train_window_def)

lemma finite_table_train_new: "finite_table (patterns (train new_NeuralPatternRecognizer h))"
proof (cases "h = []")
  case True
  then show ?thesis
    by (simp add: patterns_train new_NeuralPatternRecognizer_def train_window_short finite_table_def)
next
  case False
  then show ?thesis
    by (auto simp: patterns_train finite_table_def score_pattern_confidence)
qed

lemma predict_pattern_finite:
  assumes "\<exists>c. Pattern.confidence q = Fin c"
    and "\<forall>d. preds d = None \<or> (\<exists>w. preds d = Some (Fin w))"
  shows "\<forall>d. predict_pattern recent q preds d = None \<or>
             (\<exists>w. predict_pattern recent q preds d = Some (Fin w))"
proof
  fix d
  from assms(1) obtain c where c: "Pattern.confidence q = Fin c" by blast
  have "\<exists>w. jadd (or0 (to_number (preds (last (sequence q))))) (Fin c) = Fin w"
    using assms(2)[rule_format, of "last (sequence q)"]
    by (auto simp: to_number_def or0_def)
  then show "predict_pattern recent q preds d = None \<or>
             (\<exists>w. predict_pattern recent q preds d = Some (Fin w))"
    using assms(2)[rule_format, of d] c by (auto simp: predict_pattern_def Let_def)
qed

lemma predict_fold_finite:
  assumes "\<forall>q \<in> set qs. \<exists>c. Pattern.confidence q = Fin c"
    and "\<forall>d. preds d = None \<or> (\<exists>w. preds d = Some (Fin w))"
  shows "\<forall>d. fold (predict_pattern recent) qs preds d = None \<or>
             (\<exists>w. fold (predict_pattern recent) qs preds d = Some (Fin w))"
  using assms
proof (induction qs arbitrary: preds)
  case Nil
  then show ?case by simp
next
  case (Cons q qs)
  have "\<forall>d. predict_pattern recent q preds d = None \<or>
             (\<exists>w. predict_pattern recent q preds d = Some (Fin w))"
    using predict_pattern_finite[of q preds recent] Cons.prems by simp
  with Cons.IH[of "predict_pattern recent q preds"] Cons.prems(1) show ?case by simp
qed

lemma baseProb_Fin: "\<exists>b. baseProb t (Fin c) = Fin b"
  by (cases t) (auto simp: baseProb_def)

lemma markov_cell_Fin:
  assumes "arr_get (nw ! from) d = Some (Fin b)"
  shows "\<exists>x. markov_cell nw from t d (Fin c) = Fin x \<and> x \<le> 100"
proof -
  obtain y where "baseProb t (Fin c) = Fin y" using baseProb_Fin by blast
  then show ?thesis using assms
    by (auto simp: markov_cell_def to_number_def jmin_def)
qed

lemma finite_cells_arr_set:
  assumes "finite_cells a"
  shows "finite_cells (arr_set a d (jadd (to_number (arr_get a d)) (Fin w)))"
  unfolding finite_cells_def
proof (intro allI impI)
  fix j :: nat assume j: "j < 10"
  from assms j obtain v where "arr_get a j = Some (Fin v)" unfolding finite_cells_def by blast
  then show "\<exists>u. arr_get (arr_set a d (jadd (to_number (arr_get a d)) (Fin w))) j = Some (Fin u)"
    by (auto simp: arr_get_arr_set to_number_def)
qed

lemma count_transitions_finite:
  assumes "count_transitions h is (tr, nw) = Inr (tr', nw')"
    and "length tr = 10" "length nw = 10"
    and "\<forall>row \<in> set tr. finite_cells row" "\<forall>row \<in> set nw. finite_cells row"
  shows "length tr' = 10 \<and> length nw' = 10 \<and>
         (\<forall>row \<in> set tr'. finite_cells row) \<and> (\<forall>row \<in> set nw'. finite_cells row)"
  using assms
proof (induction "is" arbitrary: tr nw)
  case Nil
  then show ?case by simp
next
  case (Cons i rest)
  let ?from = "h ! i" and ?to = "h ! (i + 1)"
  let ?w = "jpow (Fin 0.99) (length h - 1 - i)"
  let ?tr = "tr[?from := arr_set (tr ! ?from) ?to (jadd (to_number (arr_get (tr ! ?from) ?to)) ?w)]"
  let ?nw = "nw[?from := arr_set (nw ! ?from) ?to (jadd (to_number (arr_get (nw ! ?from) ?to)) ?w)]"
  from Cons.prems(1) have fr: "?from < 10" and rec: "count_transitions h rest (?tr, ?nw) = Inr (tr', nw')"
    using Cons.prems(2,3) by (auto simp: Let_def split: if_splits)
  have 1: "\<forall>row \<in> set ?tr. finite_cells row"
    using Cons.prems(2,4) fr finite_cells_arr_set[of "tr ! ?from"]
    by (auto simp: jpow_Fin dest!: set_update_subset_insert[THEN subsetD])
  have 2: "\<forall>row \<in> set ?nw. finite_cells row"
    using Cons.prems(3,5) fr finite_cells_arr_set[of "nw ! ?from"]
    by (auto simp: jpow_Fin dest!: set_update_subset_insert[THEN subsetD])
  show ?case using Cons.IH[OF rec _ _ 1 2] Cons.prems(2,3) by simp
qed

lemma finite_cells_zero: "\<forall>row \<in> set zero_matrix. finite_cells row"
  by (auto simp: zero_matrix_def finite_cells_def arr_get_def)

section \<open>One prediction step\<close>

lemma bounded_cells_finite: "bounded_cells a \<Longrightarrow> finite_cells a"
  unfolding bounded_cells_def finite_cells_def by blast

lemma arr_get_markov_row:
  "arr_get (markov_row nw from row) d
     = map_option (markov_cell nw from (arr_sum row) d) (arr_get row d)"
  by (simp add: markov_row_def arr_get_def)

lemma bounded_cells_markov_row:
  assumes "finite_cells row" "finite_cells (nw ! from)"
  shows "bounded_cells (markov_row nw from row)"
  unfolding bounded_cells_def
proof (intro allI impI)
  fix j :: nat assume j: "j < 10"
  from assms j obtain c b where "arr_get row j = Some (Fin c)" "arr_get (nw ! from) j = Some (Fin b)"
    unfolding finite_cells_def by blast
  then show "\<exists>w. arr_get (markov_row nw from row) j = Some (Fin w) \<and> w \<le> 100"
    using markov_cell_Fin[of nw "from" j b "arr_sum row" c]
    by (simp add: arr_get_markov_row)
qed

lemma buildEnhancedMarkov_bounded:
  assumes "buildEnhancedMarkov h = Inr m"
  shows "length m = 10 \<and> (\<forall>row \<in> set m. bounded_cells row)"
proof -
  from assms obtain tr nw where
    ct: "count_transitions h [0 ..< length h - 1] (zero_matrix, zero_matrix) = Inr (tr, nw)"
    and m: "m = map (\<lambda>from. markov_row nw from (tr ! from)) [0 ..< length tr]"
    by (auto simp: buildEnhancedMarkov_def split: sum.splits)
  have inv: "length tr = 10 \<and> length nw = 10 \<and>
         (\<forall>row \<in> set tr. finite_cells row) \<and> (\<forall>row \<in> set nw. finite_cells row)"
    using count_transitions_finite[OF ct] finite_cells_zero by (simp add: zero_matrix_def)
  then have "\<forall>from < 10. bounded_cells (markov_row nw from (tr ! from))"
    by (auto intro!: bounded_cells_markov_row)
  then show ?thesis using m inv by auto
qed

lemma constructed_well_formed:
  assumes "new_MultiStepPredictor h = Inr p"
  shows "well_formed p"
proof -
  from assms obtain m where m: "buildEnhancedMarkov h = Inr m"
    and p: "p = \<lparr>patternRecognizer = train new_NeuralPatternRecognizer h, markovChain = m\<rparr>"
    by (auto simp: new_MultiStepPredictor_def Let_def split: sum.splits)
  show ?thesis
    using buildEnhancedMarkov_bounded[OF m] finite_table_train_new[of h] p
    by (auto simp: well_formed_def bounded_cells_finite)
qed

lemma or0_Fin: "or0 (Fin x) = Fin x"
  by (simp add: or0_def)

lemma pattern_weight_Fin:
  assumes "finite_table (patterns r)"
  shows "\<exists>w. pattern_weight r cur d = Fin w \<and> or0 (to_number (fst (predictNext r cur) d)) = Fin w"
proof -
  have "\<forall>d. fold (predict_pattern cur) (map snd (patterns r)) Map.empty d = None \<or>
      (\<exists>w. fold (predict_pattern cur) (map snd (patterns r)) Map.empty d = Some (Fin w))"
    using assms by (intro predict_fold_finite) (simp_all add: finite_table_def)
  then have "fst (predictNext r cur) d = None \<or> (\<exists>w. fst (predictNext r cur) d = Some (Fin w))"
    by (simp add: predictNext_def)
  then show ?thesis by (auto simp: pattern_weight_def to_number_def or0_def)
qed

lemma predict_step_spec:
  assumes wf: "well_formed p" and ne: "cur \<noteq> []" and last: "last cur < 10"
  shows "\<exists>d s. predict_step p cur = Inr (d, s) \<and> ensemble_spec p cur d s"
proof -
  let ?row = "markovChain p ! last cur"
  have look: "markov_lookup (markovChain p) cur = Some ?row"
    using wf ne last by (simp add: markov_lookup_def well_formed_def)
  have "finite_cells ?row" using wf last by (simp add: well_formed_def)
  then have "\<forall>j. \<exists>x. j < 10 \<longrightarrow> arr_get ?row j = Some (Fin x)"
    unfolding finite_cells_def by blast
  then obtain mk where mk: "\<forall>j < 10. arr_get ?row j = Some (Fin (mk j))"
    by metis
  have "\<forall>j. \<exists>w. pattern_weight (patternRecognizer p) cur j = Fin w \<and>
           or0 (to_number (fst (predictNext (patternRecognizer p) cur) j)) = Fin w"
    using pattern_weight_Fin wf by (simp add: well_formed_def)
  then obtain pat where pat: "\<forall>j. pattern_weight (patternRecognizer p) cur j = Fin (pat j) \<and>
           or0 (to_number (fst (predictNext (patternRecognizer p) cur) j)) = Fin (pat j)"
    by metis
  define score where "score = (\<lambda>j. 0.5 * pat j + 0.35 * mk j
                            + 0.15 * (real (count_list cur j) / real (length cur) * 100))"
  have sc: "\<forall>j < 10. ensemble_score (fst (predictNext (patternRecognizer p) cur)) ?row
                 (analyzeFrequency cur) j = Fin (score j)"
    using pat mk ne by (simp add: ensemble_score_def arr_get_analyzeFrequency to_number_def or0_Fin score_def)
  have entries: "ensemble_entries p cur ?row = map (\<lambda>d. (d, Fin (score d))) [0 ..< 10]"
    unfolding ensemble_entries_def Let_def using sc by (intro map_cong) auto
  obtain i where i: "i < 10"
    and h: "hd (js_sort (\<lambda>a b. jsub (snd b) (snd a)) (map (\<lambda>d. (d, Fin (score d))) [0 ..< 10]))
              = (i, Fin (score i))"
    and mx: "\<forall>j < 10. score j \<le> score i" and fs: "\<forall>j < i. score j < score i"
    using hd_js_sort_scores[of "[0 ..< 10]" score] by auto
  have ne': "js_sort (\<lambda>a b. jsub (snd b) (snd a)) (map (\<lambda>d. (d, Fin (score d))) [0 ..< 10]) \<noteq> []"
    by (simp add: js_sort_eq_Nil)
  have "predict_step p cur = Inr (i, Fin (score i))"
    using look entries h ne'
    by (cases "js_sort (\<lambda>a b. jsub (snd b) (snd a)) (map (\<lambda>d. (d, Fin (score d))) [0 ..< 10])")
       (auto simp: predict_step_def)
  moreover have "ensemble_spec p cur i (Fin (score i))"
    unfolding ensemble_spec_def Let_def
    using pat mk i mx fs sc by (intro exI[of _ pat] exI[of _ mk]) (simp add: score_def)
  ultimately show ?thesis by blast
qed

lemma predict_step_defined:
  assumes "predict_step p cur = Inr (d, s)"
  shows "cur \<noteq> [] \<and> last cur < length (markovChain p)"
  using assms by (auto simp: predict_step_def markov_lookup_def split: option.splits if_splits)

section \<open>The prediction loop\<close>

lemma predict_loop_done:
  "\<not> stp \<le> steps \<Longrightarrow> predict_loop p steps stp cur preds = Inr preds"
  by (simp add: predict_loop.simps[of p steps stp] Let_def)

lemma predict_loop_error:
  "stp \<le> steps \<Longrightarrow> predict_step p cur = Inl e
   \<Longrightarrow> predict_loop p steps stp cur preds = Inl e"
  by (simp add: predict_loop.simps[of p steps stp] Let_def)

lemma predict_loop_stop:
  "stp \<le> steps \<Longrightarrow> predict_step p cur = Inr (d, sc) \<Longrightarrow> confidence_of sc = low
   \<Longrightarrow> 3 \<le> stp
   \<Longrightarrow> predict_loop p steps stp cur preds = Inr (preds @ [emit stp d sc])"
  by (simp add: predict_loop.simps[of p steps stp] Let_def)

lemma predict_loop_continue:
  "stp \<le> steps \<Longrightarrow> predict_step p cur = Inr (d, sc)
   \<Longrightarrow> \<not> (confidence_of sc = low \<and> 3 \<le> stp)
   \<Longrightarrow> predict_loop p steps stp cur preds
       = predict_loop p steps (Suc stp) (cur @ [d]) (preds @ [emit stp d sc])"
  by (auto simp: predict_loop.simps[of p steps stp] Let_def)

text \<open>
  Invariant of the loop: the predictions pushed so far are numbered from 1, and none
  of them from the third on is \<open>low\<close> (the loop would have been left). In the
  returned list a \<open>low\<close> prediction at step 3 or later is therefore the last one.
\<close>

lemma predict_loop_shape:
  assumes "predict_loop p steps stp cur preds = Inr ps"
    and "Suc (length preds) = stp"
    and "\<forall>k < length preds. step (preds ! k) = Suc k \<and>
           (2 \<le> k \<longrightarrow> MultiStepPrediction.confidence (preds ! k) \<noteq> low)"
  shows "\<forall>k < length ps. step (ps ! k) = Suc k \<and>
           (2 \<le> k \<and> MultiStepPrediction.confidence (ps ! k) = low \<longrightarrow> length ps = Suc k)"
  using assms
proof (induction "Suc steps - stp" arbitrary: stp cur preds)
  case 0
  then have "ps = preds" by (simp add: predict_loop_done)
  with "0.prems" show ?case by auto
next
  case (Suc n)
  from Suc.hyps(2) have le: "stp \<le> steps" by simp
  then obtain d sc where st: "predict_step p cur = Inr (d, sc)"
    using Suc.prems(1) by (cases "predict_step p cur") (auto simp: predict_loop_error)
  let ?q = "emit stp d sc"
  have ext: "\<forall>k < length (preds @ [?q]). step ((preds @ [?q]) ! k) = Suc k \<and>
      (2 \<le> k \<and> k < length preds
        \<longrightarrow> MultiStepPrediction.confidence ((preds @ [?q]) ! k) \<noteq> low)"
    using Suc.prems(2,3) by (auto simp: nth_append emit_def)
  show ?case
  proof (cases "confidence_of sc = low \<and> 3 \<le> stp")
    case True
    then have "ps = preds @ [?q]"
      using predict_loop_stop[OF le st, of preds] Suc.prems(1) by simp
    then show ?thesis using ext Suc.prems(2) by (auto simp: less_Suc_eq)
  next
    case False
    have rec: "predict_loop p steps (Suc stp) (cur @ [d]) (preds @ [?q]) = Inr ps"
      using predict_loop_continue[OF le st False, of preds] Suc.prems(1) by simp
    have inv: "\<forall>k < length (preds @ [?q]). step ((preds @ [?q]) ! k) = Suc k \<and>
      (2 \<le> k \<longrightarrow> MultiStepPrediction.confidence ((preds @ [?q]) ! k) \<noteq> low)"
    proof (intro allI impI)
      fix k assume k: "k < length (preds @ [?q])"
      show "step ((preds @ [?q]) ! k) = Suc k \<and>
        (2 \<le> k \<longrightarrow> MultiStepPrediction.confidence ((preds @ [?q]) ! k) \<noteq> low)"
      proof (cases "k < length preds")
        case True
        then show ?thesis using ext k by blast
      next
        case False
        then have "k = length preds" using k by simp
        then show ?thesis
          using ext k \<open>\<not> (confidence_of sc = low \<and> 3 \<le> stp)\<close> Suc.prems(2)
          by (auto simp: emit_def)
      qed
    qed
    have m: "n = Suc steps - Suc stp" using Suc.hyps(2) by simp
    show ?thesis
      using Suc.hyps(1)[OF m rec _ inv] Suc.prems(2) by simp
  qed
qed


lemma predict_loop_trace:
  assumes "predict_loop p steps stp cur preds = Inr ps"
  shows "\<exists>new. ps = preds @ new \<and>
           (\<forall>k < length new. predict_step p (cur @ map digit (take k new))
                               = Inr (digit (new ! k), probability (new ! k)))"
  using assms
proof (induction "Suc steps - stp" arbitrary: stp cur preds)
  case 0
  then have "ps = preds" by (simp add: predict_loop_done)
  then show ?case by simp
next
  case (Suc n)
  from Suc.hyps(2) have le: "stp \<le> steps" by simp
  then obtain d sc where st: "predict_step p cur = Inr (d, sc)"
    using Suc.prems(1) by (cases "predict_step p cur") (auto simp: predict_loop_error)
  let ?q = "emit stp d sc"
  show ?case
  proof (cases "confidence_of sc = low \<and> 3 \<le> stp")
    case True
    then have "ps = preds @ [?q]"
      using predict_loop_stop[OF le st, of preds] Suc.prems(1) by simp
    then show ?thesis using st by (intro exI[of _ "[?q]"]) (simp add: emit_def)
  next
    case False
    have rec: "predict_loop p steps (Suc stp) (cur @ [d]) (preds @ [?q]) = Inr ps"
      using predict_loop_continue[OF le st False, of preds] Suc.prems(1) by simp
    have m: "n = Suc steps - Suc stp" using Suc.hyps(2) by simp
    from Suc.hyps(1)[OF m rec] obtain new where new: "ps = (preds @ [?q]) @ new"
      and tr: "\<forall>k < length new. predict_step p ((cur @ [d]) @ map digit (take k new))
                               = Inr (digit (new ! k), probability (new ! k))" by blast
    have "\<forall>k < length (?q # new). predict_step p (cur @ map digit (take k (?q # new)))
                               = Inr (digit ((?q # new) ! k), probability ((?q # new) ! k))"
    proof (intro allI impI)
      fix k assume k: "k < length (?q # new)"
      show "predict_step p (cur @ map digit (take k (?q # new)))
                               = Inr (digit ((?q # new) ! k), probability ((?q # new) ! k))"
      proof (cases k)
        case 0
        then show ?thesis using st by (simp add: emit_def)
      next
        case (Suc k')
        then have "k' < length new" using k by simp
        with tr have "predict_step p ((cur @ [d]) @ map digit (take k' new))
                               = Inr (digit (new ! k'), probability (new ! k'))" by blast
        then show ?thesis using Suc by (simp add: emit_def)
      qed
    qed
    then show ?thesis using new by (intro exI[of _ "?q # new"]) simp
  qed
qed

lemma predict_loop_total:
  assumes "well_formed p" "cur \<noteq> []" "last cur < 10"
  shows "\<exists>ps. predict_loop p steps stp cur preds = Inr ps \<and>
              (stp \<le> steps \<longrightarrow> length preds < length ps)"
  using assms(2,3)
proof (induction "Suc steps - stp" arbitrary: stp cur preds)
  case 0
  then show ?case by (simp add: predict_loop_done)
next
  case (Suc n)
  from Suc.hyps(2) have le: "stp \<le> steps" by simp
  from predict_step_spec[OF assms(1) Suc.prems] obtain d sc
    where st: "predict_step p cur = Inr (d, sc)" and d: "d < 10"
    by (auto simp: ensemble_spec_def Let_def)
  let ?q = "emit stp d sc"
  show ?case
  proof (cases "confidence_of sc = low \<and> 3 \<le> stp")
    case True
    then show ?thesis using predict_loop_stop[OF le st, of preds] by simp
  next
    case False
    have m: "n = Suc steps - Suc stp" using Suc.hyps(2) by simp
    from Suc.hyps(1)[OF m, of "cur @ [d]" "preds @ [?q]"] d
    obtain ps where "predict_loop p steps (Suc stp) (cur @ [d]) (preds @ [?q]) = Inr ps"
      and "Suc stp \<le> steps \<longrightarrow> length (preds @ [?q]) < length ps" by auto
    moreover have "length (preds @ [?q]) \<le> length ps"
      using predict_loop_trace[OF calculation(1)] by auto
    ultimately show ?thesis
      using predict_loop_continue[OF le st False, of preds] by auto
  qed
qed

section \<open>The backtest loop\<close>

lemma settle_counts:
  "settle s predicted actual (tp, fp, pl) = (tp', fp', pl') \<Longrightarrow> tp' + fp' = Suc (tp + fp)"
  by (auto simp: settle_def split: if_splits)

lemma backtest_loop_bound:
  "backtest_loop pr td s is (tp, fp, pl) = Inr (tp', fp', pl')
   \<Longrightarrow> tp' + fp' \<le> tp + fp + length is"
proof (induction "is" arbitrary: tp fp pl)
  case Nil
  then show ?case by simp
next
  case (Cons i rest)
  show ?case
  proof (cases "pr (take i td) 1")
    case (Inl e)
    with Cons.prems show ?thesis by simp
  next
    case (Inr qs)
    show ?thesis
    proof (cases qs)
      case Nil
      with Inr Cons.prems Cons.IH[of tp fp pl] show ?thesis by simp
    next
      case (Cons q qs')
      obtain a b c where st: "settle s (digit q) (td ! i) (tp, fp, pl) = (a, b, c)"
        by (metis prod_cases3)
      with Inr Cons Cons.prems Cons.IH[of a b c] settle_counts[OF st]
      show ?thesis by simp
    qed
  qed
qed

lemma backtest_loop_all_scored:
  assumes "\<forall>i \<in> set is. \<exists>q qs. pr (take i td) 1 = Inr (q # qs)"
  shows "\<exists>tp' fp' pl'. backtest_loop pr td s is (tp, fp, pl) = Inr (tp', fp', pl') \<and>
           tp' + fp' = tp + fp + length is"
  using assms
proof (induction "is" arbitrary: tp fp pl)
  case Nil
  then show ?case by simp
next
  case (Cons i rest)
  then obtain q qs where q: "pr (take i td) 1 = Inr (q # qs)" by auto
  obtain a b c where st: "settle s (digit q) (td ! i) (tp, fp, pl) = (a, b, c)"
    by (metis prod_cases3)
  from Cons.IH[of a b c] Cons.prems obtain tp' fp' pl' where
    "backtest_loop pr td s rest (a, b, c) = Inr (tp', fp', pl')" "tp' + fp' = a + b + length rest"
    by auto
  then show ?case using q st settle_counts[OF st] by simp
qed

lemma backtest_loop_cong:
  assumes "\<forall>i \<in> set is. pr (take i td') 1 = pr (take i td) 1 \<and> td' ! i = td ! i"
  shows "backtest_loop pr td' s is st = backtest_loop pr td s is st"
  using assms
proof (induction "is" arbitrary: st)
  case Nil
  then show ?case by simp
next
  case (Cons i rest)
  then show ?case by (simp split: sum.splits list.splits)
qed


lemma set_scored_indices: "set (scored_indices td) = {i. 50 \<le> i \<and> i + 2 \<le> length td}"
  by (auto simp: scored_indices_def)

lemma length_scored_indices: "length (scored_indices td) = length td - 51"
  by (simp add: scored_indices_def)

lemma metrics_fields:
  "truePositives (metrics (tp, fp, pl)) = tp" "falsePositives (metrics (tp, fp, pl)) = fp"
  "trueNegatives (metrics (tp, fp, pl)) = 0" "falseNegatives (metrics (tp, fp, pl)) = 0"
  "profitLoss (metrics (tp, fp, pl)) = pl"
  by (simp_all add: metrics_def Let_def)


section \<open>The detector: sorting and empty input\<close>

lemma set_insort_cmp: "set (insort_cmp cmp x ys) = insert x (set ys)"
  by (induction ys) auto

lemma set_js_sort: "set (js_sort cmp xs) = set xs"
  by (induction xs) (simp_all add: js_sort_Nil js_sort_Cons set_insort_cmp)







lemma arr_sum_fold_NaN:
  "fold (\<lambda>c s. case c of None \<Rightarrow> s | Some v \<Rightarrow> jadd s v) a NaN = NaN"
  by (induction a) (auto split: option.splits)

lemma jadd_NaN_right: "jadd x NaN = NaN"
  by (cases x) simp_all

lemma arr_sum_NaN:
  assumes "Some NaN \<in> set a"
  shows "arr_sum a = NaN"
proof -
  have "fold (\<lambda>c s. case c of None \<Rightarrow> s | Some v \<Rightarrow> jadd s v) a s = NaN" for s
    using assms
  proof (induction a arbitrary: s)
    case Nil
    then show ?case by simp
  next
    case (Cons c a)
    then show ?case by (auto simp: arr_sum_fold_NaN jadd_NaN_right split: option.splits)
  qed
  then show ?thesis by (simp add: arr_sum_def)
qed

lemma detector_analyzeFrequency_Nil: "detector_analyzeFrequency [] = replicate 10 (Some NaN)"
  by (simp add: detector_analyzeFrequency_def count_digits_def arr_map_def of_count_def)

lemma frequency_check_NaN: "frequency_check det d NaN = []"
  by (simp add: frequency_check_def jsub_def)

lemma frequency_anomalies_NaN: "frequency_anomalies det (replicate 10 (Some NaN)) = []"
  by (simp add: frequency_anomalies_def frequency_check_NaN)

lemma jsub_NaN: "jsub NaN y = NaN" "jsub x NaN = NaN"
  by (simp_all add: jsub_def jadd_NaN_right)

lemma calculateStdDev_NaN: "calculateStdDev (replicate 10 (Some NaN)) m = NaN"
proof -
  have "arr_sum (arr_map (\<lambda>v. jpow (jsub v m) 2) (replicate 10 (Some NaN))) = NaN"
    by (rule arr_sum_NaN) (simp add: arr_map_def jsub_NaN numeral_2_eq_2)
  then show ?thesis by (simp add: calculateStdDev_def)
qed

lemma volatility_anomalies_NaN: "volatility_anomalies det (replicate 10 (Some NaN)) = []"
  by (simp add: volatility_anomalies_def calculateStdDev_NaN jsub_NaN)

lemma calculateUniformity_NaN: "calculateUniformity (replicate 10 (Some NaN)) = NaN"
proof -
  have "arr_sum (arr_map (\<lambda>f. jabs (jsub f (Fin 10))) (replicate 10 (Some NaN))) = NaN"
    by (rule arr_sum_NaN) (simp add: arr_map_def jsub_NaN)
  then show ?thesis by (simp add: calculateUniformity_def jsub_NaN jmax_def)
qed

lemma distribution_anomalies_NaN: "distribution_anomalies (replicate 10 (Some NaN)) = []"
  by (simp add: distribution_anomalies_def calculateUniformity_NaN jlt_def)

lemma pattern_anomalies_Nil: "pattern_anomalies [] = []"
  by (simp add: pattern_anomalies_def detectUnusualPatterns_def alternation_check_def run_check_def)

lemma detect_Nil: "detect det [] = []"
  by (simp add: detect_def detected_anomalies_def detector_analyzeFrequency_Nil
      frequency_anomalies_NaN volatility_anomalies_NaN pattern_anomalies_Nil
      distribution_anomalies_NaN js_sort_Nil)

section \<open>The confidence pass\<close>

lemma jmul_commute: "jmul x y = jmul y x"
  by (cases x; cases y) (simp_all add: mult.commute)

lemma score_pattern_fields:
  "frequency (score_pattern n q) = frequency q" "lastSeen (score_pattern n q) = lastSeen q"
  "sequence (score_pattern n q) = sequence q"
  by (simp_all add: score_pattern_def Let_def)

lemma score_pattern_formula:
  "Pattern.confidence (score_pattern n q) =
     jadd (jmul (Fin 0.6) (jmul (jdiv (of_count (frequency q)) (of_count n)) (Fin 1000)))
          (jmul (Fin 0.4) (jmul (jdiv (of_count (lastSeen q)) (of_count n)) (Fin 100)))"
  by (simp add: score_pattern_def Let_def jmul_commute)

lemma map_of_train_at:
  "map_of (train_at digits w i tab) k =
     (if take w (drop i digits) = k then
        Some (case map_of tab k of
                Some e \<Rightarrow> e\<lparr>frequency := frequency e + 1, lastSeen := i\<rparr>
              | None \<Rightarrow> \<lparr>sequence = k, frequency = 1, confidence = Fin 0, lastSeen = i,
                          successRate = Fin 0\<rparr>)
      else map_of tab k)"
  by (auto simp: train_at_def Let_def AList.update_conv' split: option.splits)

lemma distinct_train_at:
  "distinct (map fst tab) \<Longrightarrow> distinct (map fst (train_at digits w i tab))"
  by (auto simp: train_at_def Let_def AList.distinct_update split: option.splits)

lemma counted_step:
  "(case counted k occ of
      Some e \<Rightarrow> e\<lparr>frequency := frequency e + 1, lastSeen := i\<rparr>
    | None \<Rightarrow> \<lparr>sequence = k, frequency = 1, confidence = Fin 0, lastSeen = i,
                successRate = Fin 0\<rparr>) = the (counted k (occ @ [i]))"
  by (simp add: counted_def)

lemma fold_train_at_counted:
  assumes "map_of tab k = counted k occ"
  shows "map_of (fold (train_at digits w) is tab) k
           = counted k (occ @ filter (\<lambda>i. take w (drop i digits) = k) is)"
  using assms
proof (induction "is" arbitrary: tab occ)
  case Nil
  then show ?case by simp
next
  case (Cons i rest)
  show ?case
  proof (cases "take w (drop i digits) = k")
    case True
    have "map_of (train_at digits w i tab) k = counted k (occ @ [i])"
      using True Cons.prems by (simp add: map_of_train_at counted_step) (simp add: counted_def)
    from Cons.IH[OF this] True show ?thesis by simp
  next
    case False
    have "map_of (train_at digits w i tab) k = counted k occ"
      using False Cons.prems by (simp add: map_of_train_at)
    from Cons.IH[OF this] False show ?thesis by simp
  qed
qed

lemma distinct_fold_train_at:
  "distinct (map fst tab) \<Longrightarrow> distinct (map fst (fold (train_at digits w) is tab))"
  by (induction "is" arbitrary: tab) (simp_all add: distinct_train_at)

lemma window_other_length:
  assumes "length k \<noteq> w"
  shows "filter (\<lambda>i. take w (drop i digits) = k) [0 ..< Suc (length digits) - w] = []"
proof -
  have "take w (drop i digits) \<noteq> k" if "i < Suc (length digits) - w" for i
  proof -
    from that have "length (take w (drop i digits)) = w" by auto
    with assms show ?thesis by auto
  qed
  then show ?thesis by (auto simp: filter_empty_conv)
qed

lemma train_window_counted:
  assumes "map_of tab k = counted k occ"
  shows "map_of (train_window digits w tab) k
           = counted k (occ @ (if length k = w then occurrences digits k else []))"
proof (cases "length k = w")
  case True
  then show ?thesis
    using fold_train_at_counted[OF assms, of digits w "[0 ..< Suc (length digits) - w]"]
    by (simp add: train_window_def occurrences_def)
next
  case False
  then show ?thesis
    using fold_train_at_counted[OF assms, of digits w "[0 ..< Suc (length digits) - w]"]
    by (simp add: train_window_def window_other_length)
qed

lemma distinct_train_window:
  "distinct (map fst tab) \<Longrightarrow> distinct (map fst (train_window digits w tab))"
  by (simp add: train_window_def distinct_fold_train_at)

lemma fresh_table_counted:
  "map_of (fold (train_window digits) [2, 3, 4, 5] []) k
     = counted k (if length k \<in> {2, 3, 4, 5} then occurrences digits k else [])"
proof -
  have 0: "map_of ([] :: pattern_table) k = counted k []" by (simp add: counted_def)
  note 1 = train_window_counted[OF 0, of digits 2]
  note 2 = train_window_counted[OF 1, of digits 3]
  note 3 = train_window_counted[OF 2, of digits 4]
  note 4 = train_window_counted[OF 3, of digits 5]
  show ?thesis using 4 by (auto split: if_splits)
qed

lemma fresh_table_distinct:
  "distinct (map fst (fold (train_window digits) [2, 3, 4, 5] []))"
  by (simp add: distinct_train_window)

lemma fresh_train_entry:
  assumes "(key, q) \<in> set (patterns (train new_NeuralPatternRecognizer digits))"
  shows "length key \<in> {2, 3, 4, 5} \<and> occurrences digits key \<noteq> [] \<and>
         sequence q = key \<and> frequency q = length (occurrences digits key) \<and>
         lastSeen q = last (occurrences digits key)"
proof -
  let ?tab = "fold (train_window digits) [2, 3, 4, 5] []"
  from assms obtain e where e: "(key, e) \<in> set ?tab" and q: "q = score_pattern (length digits) e"
    by (auto simp: patterns_train new_NeuralPatternRecognizer_def)
  from e fresh_table_distinct[of digits] have "map_of ?tab key = Some e"
    by (rule map_of_is_SomeI[rotated])
  with fresh_table_counted[of digits key]
  have "counted key (if length key \<in> {2, 3, 4, 5} then occurrences digits key else []) = Some e"
    by simp
  then show ?thesis
    unfolding q by (auto simp: counted_def score_pattern_fields split: if_splits)
qed

section \<open>The detector on a zero baseline\<close>

lemma frequency_check_zero_baseline:
  assumes "arr_get (baselineFrequency det) d = Some (Fin 0)" and "0 < f"
  shows "frequency_check det d (Fin f) =
           [\<lparr>type = FrequencyAnomaly, severity = Critical, description = RateText d PInf True,
             affectedDigits = [int d], recommendation = ConsiderDiffering d\<rparr>]"
  using assms
  by (simp add: frequency_check_def to_number_def jsub_def signed_inf_def Let_def)

lemma arr_get_detector_analyzeFrequency:
  "j < 10 \<Longrightarrow> ds \<noteq> [] \<Longrightarrow>
   arr_get (detector_analyzeFrequency ds) j
     = Some (Fin (real (count_list ds j) / real (length ds) * 100))"
  by (simp add: detector_analyzeFrequency_def arr_get_arr_map arr_get_count_digits of_count_def)

lemma frequency_check_in_anomalies:
  assumes "arr_get a d = Some freq"
  shows "set (frequency_check det d freq) \<subseteq> set (frequency_anomalies det a)"
proof -
  from assms have d: "d < length a" and v: "a ! d = Some freq"
    by (auto simp: arr_get_def split: if_splits)
  then show ?thesis
    unfolding frequency_anomalies_def by (auto intro!: bexI[of _ d])
qed

lemma zero_baseline_reported:
  assumes "d < 10" and "arr_get (baselineFrequency det) d = Some (Fin 0)"
    and "d \<in> set recentDigits"
  shows "\<lparr>type = FrequencyAnomaly, severity = Critical, description = RateText d PInf True,
          affectedDigits = [int d], recommendation = ConsiderDiffering d\<rparr>
           \<in> set (detect det recentDigits)"
proof -
  have ne: "recentDigits \<noteq> []" using assms(3) by auto
  let ?f = "real (count_list recentDigits d) / real (length recentDigits) * 100"
  have "0 < count_list recentDigits d" using assms(3) count_list_0_iff[of recentDigits d] by auto
  then have pos: "0 < ?f" using ne by simp
  have cell: "arr_get (detector_analyzeFrequency recentDigits) d = Some (Fin ?f)"
    using assms(1) ne by (rule arr_get_detector_analyzeFrequency)
  from frequency_check_in_anomalies[OF cell, of det]
    frequency_check_zero_baseline[OF assms(2) pos]
  show ?thesis
    by (auto simp: detect_def set_js_sort detected_anomalies_def Let_def)
qed

lemma sqrt_900: "sqrt 900 = 30"
  by (rule real_sqrt_unique) simp_all

lemma calibrate_example:
  "calibrate new_AnomalyDetector [0, 0] =
     \<lparr>baselineFrequency = Some (Fin 100) # replicate 9 (Some (Fin 0)),
      baselineVolatility = Fin 30\<rparr>"
proof -
  let ?bf = "Some (Fin 100) # replicate 9 (Some (Fin 0))"
  have bf: "arr_map (\<lambda>c. jmul (jdiv c (of_count (length [0::nat, 0]))) (Fin 100))
              (count_digits [0, 0]) = ?bf"
    by code_simp
  have avg: "jdiv (arr_sum (arr_map (\<lambda>v. jpow (jsub v (Fin 10)) 2) ?bf)) (of_count (length ?bf))
               = Fin 900"
    by code_simp
  have "calculateStdDev ?bf (Fin 10) = Fin 30"
    unfolding calculateStdDev_def Let_def avg by (simp add: sqrt_900)
  then show ?thesis
    unfolding calibrate_def Let_def bf by (simp add: new_AnomalyDetector_def)
qed

lemma detect_zero_baseline_example:
  "detect \<lparr>baselineFrequency = Some (Fin 100) # replicate 9 (Some (Fin 0)),
           baselineVolatility = Fin 30\<rparr> [1] =
     [\<lparr>type = FrequencyAnomaly, severity = Critical, description = RateText 1 PInf True,
       affectedDigits = [1], recommendation = ConsiderDiffering 1\<rparr>,
      \<lparr>type = FrequencyAnomaly, severity = High, description = RateText 0 (Fin 100) False,
       affectedDigits = [0], recommendation = ConsiderMatching 0\<rparr>,
      \<lparr>type = DistributionAnomaly, severity = High, description = NonUniformText (Fin 0),
       affectedDigits = [1], recommendation = Dominating 1\<rparr>]"
proof -
  let ?det = "\<lparr>baselineFrequency = Some (Fin 100) # replicate 9 (Some (Fin 0)),
           baselineVolatility = Fin 30\<rparr>"
  let ?cf = "[Some (Fin 0), Some (Fin 100)] @ replicate 8 (Some (Fin 0))"
  have cf: "detector_analyzeFrequency [1] = ?cf" by code_simp
  have fr: "frequency_anomalies ?det ?cf =
     [\<lparr>type = FrequencyAnomaly, severity = High, description = RateText 0 (Fin 100) False,
       affectedDigits = [0], recommendation = ConsiderMatching 0\<rparr>,
      \<lparr>type = FrequencyAnomaly, severity = Critical, description = RateText 1 PInf True,
       affectedDigits = [1], recommendation = ConsiderDiffering 1\<rparr>]"
    by code_simp
  have avg: "jdiv (arr_sum (arr_map (\<lambda>v. jpow (jsub v (Fin 10)) 2) ?cf)) (of_count (length ?cf))
               = Fin 900"
    by code_simp
  have "calculateStdDev ?cf (Fin 10) = Fin 30"
    unfolding calculateStdDev_def Let_def avg by (simp add: sqrt_900)
  then have vo: "volatility_anomalies ?det ?cf = []"
    by (simp add: volatility_anomalies_def Let_def jsub_def)
  have pa: "pattern_anomalies [1] = []" by code_simp
  have di: "distribution_anomalies ?cf =
     [\<lparr>type = DistributionAnomaly, severity = High, description = NonUniformText (Fin 0),
       affectedDigits = [1], recommendation = Dominating 1\<rparr>]"
    by code_simp
  show ?thesis
    unfolding detect_def detected_anomalies_def Let_def cf fr vo pa di
    by code_simp
qed

section \<open>Rows of decayed counts\<close>













section \<open>Claims\<close>

text \<open>
  Claim C1 (early exit of \<open>predictNextN\<close>). Whatever the predictor, the recent digits
  and the number of steps requested: when the call returns a list and the prediction
  at position \<open>k \<ge> 2\<close> of it, which is the prediction of step \<open>k + 1 \<ge> 3\<close>, has the
  confidence bucket \<open>low\<close>, then that prediction is the last one. For \<open>k = 2\<close>: a \<open>low\<close>
  bucket at step 3 leaves exactly 3 predictions, however many steps were requested.
\<close>

theorem predictNextN_early_exit:
  assumes "predictNextN p recentDigits steps = Inr ps"
    and "k < length ps"
    and "2 \<le> k"
    and "MultiStepPrediction.confidence (ps ! k) = low"
  shows "step (ps ! k) = Suc k \<and> length ps = Suc k"
  using predict_loop_shape[of p steps 1 recentDigits "[]" ps] assms
  by (simp add: predictNextN_def)

text \<open>
  The predictor built from an empty history has no pattern and a zero matrix; on the
  recent digits \<open>[3]\<close> every score is 15, so the bucket is \<open>low\<close> throughout, and of
  the 5 steps requested only 3 are emitted.
\<close>

theorem predictNextN_early_exit_witness:
  "new_MultiStepPredictor [] =
     Inr \<lparr>patternRecognizer = new_NeuralPatternRecognizer, markovChain = zero_matrix\<rparr> \<and>
   predictNextN \<lparr>patternRecognizer = new_NeuralPatternRecognizer, markovChain = zero_matrix\<rparr>
       [3] 5 = Inr [emit 1 3 (Fin 15), emit 2 3 (Fin 15), emit 3 3 (Fin 15)] \<and>
   (2::nat) < length [emit 1 3 (Fin 15), emit 2 3 (Fin 15), emit 3 3 (Fin 15)] \<and>
   MultiStepPrediction.confidence
     ([emit 1 3 (Fin 15), emit 2 3 (Fin 15), emit 3 3 (Fin 15)] ! 2) = low \<and>
   step ([emit 1 3 (Fin 15), emit 2 3 (Fin 15), emit 3 3 (Fin 15)] ! 2) = 3 \<and>
   length [emit 1 3 (Fin 15), emit 2 3 (Fin 15), emit 3 3 (Fin 15)] = 3"
proof -
  let ?p = "\<lparr>patternRecognizer = new_NeuralPatternRecognizer, markovChain = zero_matrix\<rparr>"
  let ?ps = "[emit 1 3 (Fin 15), emit 2 3 (Fin 15), emit 3 3 (Fin 15)]"
  have built: "new_MultiStepPredictor [] = Inr ?p" by code_simp
  have run: "predictNextN ?p [3] 5 = Inr ?ps" by code_simp
  have k: "(2::nat) < length ?ps" by simp
  have lo: "MultiStepPrediction.confidence (?ps ! 2) = low" by code_simp
  show ?thesis
    using built run k lo predictNextN_early_exit[OF run k order_refl lo] by simp
qed

text \<open>
  Claim C2 (ensemble score and selection). For a predictor built by the constructor
  and a call of \<open>predictNextN\<close> that returns, take the prediction at position \<open>k\<close>; the
  working sequence of its step is the recent digits followed by the digits predicted
  before it. The pattern weights and the cells of the Markov row of the last digit of
  the working sequence are finite numbers \<open>pat j\<close> and \<open>mk j\<close>, and with
  \<open>score j = 0.5 * pat j + 0.35 * mk j + 0.15 * (count of j / length * 100)\<close> the
  ensemble score computed for every digit \<open>j\<close> is \<open>score j\<close>, the prediction carries a
  digit \<open>d\<close> of 0 to 9 and the probability \<open>score d\<close>, no digit scores more than \<open>d\<close>,
  and every digit below \<open>d\<close> scores strictly less: the maximum, the lowest digit
  winning a tie.
\<close>

theorem predictNextN_ensemble_argmax:
  assumes "new_MultiStepPredictor history = Inr p"
    and "predictNextN p recentDigits steps = Inr ps"
    and "k < length ps"
  shows "\<exists>pat mk.
     (\<forall>j < 10. pattern_weight (patternRecognizer p) (recentDigits @ map digit (take k ps)) j
                 = Fin (pat j)) \<and>
     (\<forall>j < 10. arr_get (markovChain p ! last (recentDigits @ map digit (take k ps))) j
                 = Some (Fin (mk j))) \<and>
     (let cur = recentDigits @ map digit (take k ps);
          score = (\<lambda>j. 0.5 * pat j + 0.35 * mk j
                        + 0.15 * (real (count_list cur j) / real (length cur) * 100))
      in (\<forall>j < 10. ensemble_score (fst (predictNext (patternRecognizer p) cur))
                       (markovChain p ! last cur) (analyzeFrequency cur) j = Fin (score j)) \<and>
         digit (ps ! k) < 10 \<and>
         probability (ps ! k) = Fin (score (digit (ps ! k))) \<and>
         (\<forall>j < 10. score j \<le> score (digit (ps ! k))) \<and>
         (\<forall>j < digit (ps ! k). score j < score (digit (ps ! k))))"
proof -
  let ?cur = "recentDigits @ map digit (take k ps)"
  have wf: "well_formed p" using assms(1) by (rule constructed_well_formed)
  from predict_loop_trace[of p steps 1 recentDigits "[]" ps] assms(2,3)
  have st: "predict_step p ?cur = Inr (digit (ps ! k), probability (ps ! k))"
    by (simp add: predictNextN_def)
  from predict_step_defined[OF st] wf have "?cur \<noteq> []" "last ?cur < 10"
    by (simp_all add: well_formed_def)
  from predict_step_spec[OF wf this] st
  have "ensemble_spec p ?cur (digit (ps ! k)) (probability (ps ! k))" by auto
  then show ?thesis unfolding ensemble_spec_def Let_def by simp
qed

text \<open>
  The predictor trained on \<open>[1, 2, 1, 2, 1]\<close>, asked for 2 steps after \<open>[1, 2]\<close>,
  predicts 1 and then 2; the second prediction is selected on the working sequence
  \<open>[1, 2, 1]\<close> with the score 292.
\<close>

theorem predictNextN_ensemble_argmax_witness:
  "\<exists>p. new_MultiStepPredictor [1, 2, 1, 2, 1] = Inr p \<and>
       predictNextN p [1, 2] 2 = Inr [emit 1 1 (Fin (605 / 2)), emit 2 2 (Fin 292)] \<and>
       (1::nat) < length [emit 1 1 (Fin (605 / 2)), emit 2 2 (Fin 292)] \<and>
       digit ([emit 1 1 (Fin (605 / 2)), emit 2 2 (Fin 292)] ! 1) = 2 \<and>
       [1, 2] @ map digit (take 1 [emit 1 1 (Fin (605 / 2)), emit 2 2 (Fin 292)]) = [1, 2, 1] \<and>
       (\<exists>pat mk.
          (\<forall>j < 10. pattern_weight (patternRecognizer p) [1, 2, 1] j = Fin (pat j)) \<and>
          (\<forall>j < 10. arr_get (markovChain p ! last [1, 2, 1]) j = Some (Fin (mk j))) \<and>
          (let cur = [1, 2, 1];
               score = (\<lambda>j. 0.5 * pat j + 0.35 * mk j
                             + 0.15 * (real (count_list cur j) / real (length cur) * 100))
           in (\<forall>j < 10. ensemble_score (fst (predictNext (patternRecognizer p) cur))
                            (markovChain p ! last cur) (analyzeFrequency cur) j = Fin (score j)) \<and>
              (2::nat) < 10 \<and> Fin 292 = Fin (score 2) \<and>
              (\<forall>j < 10. score j \<le> score 2) \<and> (\<forall>j < 2. score j < score 2)))"
proof -
  let ?ps = "[emit 1 1 (Fin (605 / 2)), emit 2 2 (Fin 292)]"
  have "case new_MultiStepPredictor [1, 2, 1, 2, 1] of
          Inl e \<Rightarrow> False | Inr p \<Rightarrow> predictNextN p [1, 2] 2 = Inr ?ps"
    by code_simp
  then obtain p where built: "new_MultiStepPredictor [1, 2, 1, 2, 1] = Inr p"
    and run: "predictNextN p [1, 2] 2 = Inr ?ps"
    by (cases "new_MultiStepPredictor [1, 2, 1, 2, 1]") auto
  have k: "(1::nat) < length ?ps" by simp
  have d: "digit (?ps ! 1) = 2" and pr: "probability (?ps ! 1) = Fin 292"
    and cur: "[1, 2] @ map digit (take 1 ?ps) = [1, 2, 1]"
    by (simp_all add: emit_def)
  note inst = predictNextN_ensemble_argmax[OF built run k, unfolded d pr cur]
  show ?thesis
    using built run k d cur inst by (intro exI[of _ p] conjI)
qed

text \<open>
  Claim C3 (confidence of a stored pattern). After \<open>train\<close> on \<open>digits\<close>, from any state
  of the recognizer, every pattern of the table has the confidence
  \<open>0.6 * (frequency / n * 1000) + 0.4 * (lastSeen / n * 100)\<close> for \<open>n\<close> the length of
  \<open>digits\<close>, on its own frequency and lastSeen as they stand after the call. The
  identity is one of JavaScript numbers; for a non-empty corpus it is the finite
  number named. On a new recognizer, the pattern stored under a key is the key
  itself, its frequency is the number of windows of \<open>digits\<close> equal to the key, of
  which there is at least one, and its lastSeen is the starting index of the last of
  them.
\<close>

theorem train_confidence_formula:
  assumes "(key, q) \<in> set (patterns (train r digits))"
  shows "Pattern.confidence q =
           jadd (jmul (Fin 0.6)
                   (jmul (jdiv (of_count (frequency q)) (of_count (length digits))) (Fin 1000)))
                (jmul (Fin 0.4)
                   (jmul (jdiv (of_count (lastSeen q)) (of_count (length digits))) (Fin 100))) \<and>
         (digits \<noteq> [] \<longrightarrow>
            Pattern.confidence q =
              Fin (0.6 * (real (frequency q) / real (length digits) * 1000)
                   + 0.4 * (real (lastSeen q) / real (length digits) * 100))) \<and>
         (r = new_NeuralPatternRecognizer \<longrightarrow>
            sequence q = key \<and> occurrences digits key \<noteq> [] \<and>
            frequency q = length (occurrences digits key) \<and>
            lastSeen q = last (occurrences digits key))"
proof -
  from assms obtain q0 where q: "q = score_pattern (length digits) q0"
    by (auto simp: patterns_train)
  have formula: "Pattern.confidence q =
           jadd (jmul (Fin 0.6)
                   (jmul (jdiv (of_count (frequency q)) (of_count (length digits))) (Fin 1000)))
                (jmul (Fin 0.4)
                   (jmul (jdiv (of_count (lastSeen q)) (of_count (length digits))) (Fin 100)))"
    unfolding q by (simp add: score_pattern_formula score_pattern_fields)
  have finite: "Pattern.confidence q =
              Fin (0.6 * (real (frequency q) / real (length digits) * 1000)
                   + 0.4 * (real (lastSeen q) / real (length digits) * 100))"
    if "digits \<noteq> []"
    using that unfolding q
    by (simp add: score_pattern_formula score_pattern_fields of_count_def)
  have fresh: "sequence q = key \<and> occurrences digits key \<noteq> [] \<and>
            frequency q = length (occurrences digits key) \<and>
            lastSeen q = last (occurrences digits key)"
    if "r = new_NeuralPatternRecognizer"
    using fresh_train_entry[of key q digits] assms that by simp
  from formula finite fresh show ?thesis by blast
qed

text \<open>
  In \<open>[1, 2, 1, 2]\<close> the pattern \<open>1,2\<close> occurs at the indices 0 and 2: its frequency
  is 2, its lastSeen 2 and its confidence \<open>0.6 * 500 + 0.4 * 50 = 320\<close>.
\<close>

theorem train_confidence_formula_witness:
  "([1, 2], \<lparr>sequence = [1, 2], frequency = 2, confidence = Fin 320, lastSeen = 2,
             successRate = Fin 0\<rparr>)
     \<in> set (patterns (train new_NeuralPatternRecognizer [1, 2, 1, 2])) \<and>
   [1, 2, 1, 2 :: nat] \<noteq> [] \<and>
   Fin 320 = Fin (0.6 * (real 2 / real (length [1, 2, 1, 2 :: nat]) * 1000)
                  + 0.4 * (real 2 / real (length [1, 2, 1, 2 :: nat]) * 100)) \<and>
   occurrences [1, 2, 1, 2] [1, 2] = [0, 2] \<and>
   (2::nat) = length (occurrences [1, 2, 1, 2] [1, 2]) \<and>
   (2::nat) = last (occurrences [1, 2, 1, 2] [1, 2])"
proof -
  let ?q = "\<lparr>sequence = [1, 2], frequency = 2, confidence = Fin 320, lastSeen = 2,
             successRate = Fin 0\<rparr>"
  have mem: "([1, 2], ?q) \<in> set (patterns (train new_NeuralPatternRecognizer [1, 2, 1, 2]))"
    by code_simp
  have ne: "[1, 2, 1, 2 :: nat] \<noteq> []" by simp
  have occ: "occurrences [1, 2, 1, 2] [1, 2] = [0, 2]" by code_simp
  from train_confidence_formula[OF mem] ne mem occ show ?thesis by simp
qed

text \<open>
  Claim C4 (what \<open>backtest\<close> scores). Whenever \<open>backtest\<close> returns a result, its
  \<open>trueNegatives\<close> and \<open>falseNegatives\<close> are 0 and at most \<open>length - 51\<close> iterations are
  counted, one for each index from 50 to \<open>length - 2\<close>. The result depends on the test
  data only through these indices: another sequence of the same length that gives the
  predictor the same answers on the histories \<open>testData[0..i)\<close> and has the same ground
  truth \<open>testData[i]\<close> for every \<open>i\<close> from 50 to \<open>length - 2\<close> has the same result,
  whatever its first 50 observations and its last one are.
\<close>

theorem backtest_scored_window:
  assumes "backtest pr testData strategy = Inr r"
  shows "trueNegatives r = 0 \<and> falseNegatives r = 0 \<and>
         truePositives r + falsePositives r \<le> length testData - 51 \<and>
         (\<forall>other. length other = length testData \<and>
            (\<forall>i. 50 \<le> i \<and> i + 2 \<le> length testData \<longrightarrow>
                 pr (take i other) 1 = pr (take i testData) 1 \<and> other ! i = testData ! i)
            \<longrightarrow> backtest pr other strategy = Inr r)"
proof -
  from assms obtain tp fp pl where
    loop: "backtest_loop pr testData strategy (scored_indices testData) (0, 0, Fin 0)
             = Inr (tp, fp, pl)"
    and r: "r = metrics (tp, fp, pl)"
    by (auto simp: backtest_def split: sum.splits)
  have z: "trueNegatives r = 0 \<and> falseNegatives r = 0" using r by (simp add: metrics_fields)
  have b: "truePositives r + falsePositives r \<le> length testData - 51"
    using backtest_loop_bound[OF loop] r by (simp add: metrics_fields length_scored_indices)
  have c: "backtest pr other strategy = Inr r"
    if "length other = length testData"
      and "\<forall>i. 50 \<le> i \<and> i + 2 \<le> length testData \<longrightarrow>
                 pr (take i other) 1 = pr (take i testData) 1 \<and> other ! i = testData ! i"
    for other
  proof -
    have si: "scored_indices other = scored_indices testData"
      using that(1) by (simp add: scored_indices_def)
    have "backtest_loop pr other strategy (scored_indices testData) (0, 0, Fin 0)
        = backtest_loop pr testData strategy (scored_indices testData) (0, 0, Fin 0)"
      using that(2) by (intro backtest_loop_cong) (simp add: set_scored_indices)
    then show ?thesis using assms si by (simp add: backtest_def)
  qed
  from z b c show ?thesis by blast
qed

text \<open>
  On 60 observations of the digit 3 and a predictor that always answers 3, 9
  iterations are scored. Replacing the first observation by 7 and the last one by 8
  changes nothing.
\<close>

theorem backtest_scored_window_witness:
  "backtest (\<lambda>h n. Inr [emit 1 3 (Fin 15)]) (replicate 60 3) Match =
     Inr \<lparr>accuracy = Fin 100, precision = Fin 100, recall = Fin 100, f1Score = Fin 100,
          truePositives = 9, falsePositives = 0, trueNegatives = 0, falseNegatives = 0,
          profitLoss = Fin (171 / 20)\<rparr> \<and>
   length (7 # replicate 58 3 @ [8]) = length (replicate 60 (3::nat)) \<and>
   backtest (\<lambda>h n. Inr [emit 1 3 (Fin 15)]) (7 # replicate 58 3 @ [8]) Match =
     Inr \<lparr>accuracy = Fin 100, precision = Fin 100, recall = Fin 100, f1Score = Fin 100,
          truePositives = 9, falsePositives = 0, trueNegatives = 0, falseNegatives = 0,
          profitLoss = Fin (171 / 20)\<rparr>"
proof -
  let ?pr = "\<lambda>(h::nat list) (n::nat).
               Inr [emit 1 3 (Fin 15)] :: jserror + MultiStepPrediction list"
  let ?r = "\<lparr>accuracy = Fin 100, precision = Fin 100, recall = Fin 100, f1Score = Fin 100,
          truePositives = 9, falsePositives = 0, trueNegatives = 0, falseNegatives = 0,
          profitLoss = Fin (171 / 20)\<rparr>"
  have run: "backtest ?pr (replicate 60 3) Match = Inr ?r" by code_simp
  have len: "length (7 # replicate 58 3 @ [8]) = length (replicate 60 (3::nat))" by simp
  have same: "\<forall>i. 50 \<le> i \<and> i + 2 \<le> length (replicate 60 (3::nat)) \<longrightarrow>
      ?pr (take i (7 # replicate 58 3 @ [8])) 1 = ?pr (take i (replicate 60 3)) 1 \<and>
      (7 # replicate 58 3 @ [8]) ! i = replicate 60 (3::nat) ! i"
    by (auto simp: nth_Cons' nth_append)
  from backtest_scored_window[OF run] len same
  have "backtest ?pr (7 # replicate 58 3 @ [8]) Match = Inr ?r" by blast
  with run len show ?thesis by blast
qed

text \<open>
  Claim C5, as amended (division by zero in \<open>detect\<close>). The source has no
  insufficient-data signal: \<open>detect\<close> returns an anomaly list on every input. On empty
  recent digits every frequency is \<open>0 / 0\<close>, that is NaN, every threshold comparison
  is false and the result is the empty list. For a digit whose baseline frequency is
  0 and which occurs in the recent digits, the percent change is \<open>x / 0\<close> with \<open>x > 0\<close>,
  that is Infinity, and the result holds a critical frequency anomaly built from it.
\<close>

theorem detect_zero_division_silent:
  "detect det [] = [] \<and>
   (d < 10 \<and> arr_get (baselineFrequency det) d = Some (Fin 0) \<and> d \<in> set recentDigits \<longrightarrow>
      \<lparr>type = FrequencyAnomaly, severity = Critical, description = RateText d PInf True,
       affectedDigits = [int d], recommendation = ConsiderDiffering d\<rparr>
        \<in> set (detect det recentDigits))"
  using detect_Nil[of det] zero_baseline_reported[of d det recentDigits] by blast

text \<open>
  Calibrated on \<open>[0, 0]\<close>, the baseline frequency of the digit 1 is 0; the recent
  digits \<open>[1]\<close> then hold the digit 1.
\<close>

theorem detect_zero_division_silent_witness:
  "(1::nat) < 10 \<and>
   arr_get (baselineFrequency (calibrate new_AnomalyDetector [0, 0])) 1 = Some (Fin 0) \<and>
   (1::nat) \<in> set [1] \<and>
   \<lparr>type = FrequencyAnomaly, severity = Critical, description = RateText 1 PInf True,
    affectedDigits = [int 1], recommendation = ConsiderDiffering 1\<rparr>
     \<in> set (detect (calibrate new_AnomalyDetector [0, 0]) [1])"
proof -
  have a: "(1::nat) < 10" by simp
  have b: "arr_get (baselineFrequency (calibrate new_AnomalyDetector [0, 0])) 1 = Some (Fin 0)"
    by (simp add: calibrate_example arr_get_def)
  have c: "(1::nat) \<in> set [1]" by simp
  from detect_zero_division_silent[of "calibrate new_AnomalyDetector [0, 0]" 1 "[1]"] a b c
  show ?thesis by blast
qed

text \<open>
  Claim C5 as stated fails: no call of \<open>detect\<close> signals anything. With the default
  baseline and no recent digit, the frequencies are all NaN and the call returns the
  empty list like a call that found no anomaly. After calibration on \<open>[0, 0]\<close> the
  recent digits \<open>[1]\<close> give a list whose first anomaly carries the percent change
  Infinity.
\<close>

theorem detect_fail_fast_counterexample:
  "detector_analyzeFrequency [] = replicate 10 (Some NaN) \<and>
   detect new_AnomalyDetector [] = [] \<and>
   calibrate new_AnomalyDetector [0, 0] =
     \<lparr>baselineFrequency = Some (Fin 100) # replicate 9 (Some (Fin 0)),
      baselineVolatility = Fin 30\<rparr> \<and>
   detect (calibrate new_AnomalyDetector [0, 0]) [1] =
     [\<lparr>type = FrequencyAnomaly, severity = Critical, description = RateText 1 PInf True,
       affectedDigits = [1], recommendation = ConsiderDiffering 1\<rparr>,
      \<lparr>type = FrequencyAnomaly, severity = High, description = RateText 0 (Fin 100) False,
       affectedDigits = [0], recommendation = ConsiderMatching 0\<rparr>,
      \<lparr>type = DistributionAnomaly, severity = High, description = NonUniformText (Fin 0),
       affectedDigits = [1], recommendation = Dominating 1\<rparr>]"
  using detector_analyzeFrequency_Nil detect_Nil[of new_AnomalyDetector]
    calibrate_example detect_zero_baseline_example
  by simp






text \<open>
  Claim C9 (\<open>predictNextN\<close> always predicts). For a predictor built by the constructor:
  on non-empty recent digits that are digits 0 to 9 and at least one step requested,
  \<open>predictNextN\<close> returns a non-empty list whose predictions carry digits 0 to 9 and
  are numbered 1, 2, 3 and so on. Hence in \<open>backtest\<close> on test data of digits 0 to 9
  the predictor returns a first prediction at every scored index, the iteration is
  never skipped, and the iterations counted are all \<open>length - 51\<close> of them.
\<close>

theorem predictNextN_never_empty:
  assumes "new_MultiStepPredictor history = Inr p"
  shows "(recentDigits \<noteq> [] \<and> set recentDigits \<subseteq> {0 .. 9} \<and> 1 \<le> steps \<longrightarrow>
           (\<exists>ps. predictNextN p recentDigits steps = Inr ps \<and> ps \<noteq> [] \<and>
                 (\<forall>k < length ps. digit (ps ! k) \<le> 9 \<and> step (ps ! k) = Suc k))) \<and>
         (set testData \<subseteq> {0 .. 9} \<longrightarrow>
           (\<forall>i \<in> set (scored_indices testData).
               \<exists>q qs. predictNextN p (take i testData) 1 = Inr (q # qs)) \<and>
           (\<exists>r. backtest (predictNextN p) testData strategy = Inr r \<and>
                truePositives r + falsePositives r = length testData - 51))"
proof -
  have wf: "well_formed p" using assms(1) by (rule constructed_well_formed)
  have first: "\<exists>ps. predictNextN p recentDigits steps = Inr ps \<and> ps \<noteq> [] \<and>
                 (\<forall>k < length ps. digit (ps ! k) \<le> 9 \<and> step (ps ! k) = Suc k)"
    if ne: "recentDigits \<noteq> []" and dg: "set recentDigits \<subseteq> {0 .. 9}" and st: "1 \<le> steps"
  proof -
    have "last recentDigits \<in> set recentDigits" using ne by simp
    then have l: "last recentDigits < 10" using dg by fastforce
    from predict_loop_total[OF wf ne l, of steps 1 "[]"] st
    obtain ps where ps: "predictNextN p recentDigits steps = Inr ps" and nonempty: "ps \<noteq> []"
      by (auto simp: predictNextN_def)
    have "\<forall>k < length ps. digit (ps ! k) \<le> 9 \<and> step (ps ! k) = Suc k"
    proof (intro allI impI)
      fix k assume k: "k < length ps"
      let ?cur = "recentDigits @ map digit (take k ps)"
      from predict_loop_trace[of p steps 1 recentDigits "[]" ps] ps k
      have stp: "predict_step p ?cur = Inr (digit (ps ! k), probability (ps ! k))"
        by (simp add: predictNextN_def)
      from predict_step_defined[OF stp] wf have "?cur \<noteq> []" "last ?cur < 10"
        by (simp_all add: well_formed_def)
      from predict_step_spec[OF wf this] stp have "digit (ps ! k) < 10"
        by (auto simp: ensemble_spec_def Let_def)
      moreover have "step (ps ! k) = Suc k"
        using predict_loop_shape[of p steps 1 recentDigits "[]" ps] ps k
        by (simp add: predictNextN_def)
      ultimately show "digit (ps ! k) \<le> 9 \<and> step (ps ! k) = Suc k" by simp
    qed
    with ps nonempty show ?thesis by blast
  qed
  have second: "(\<forall>i \<in> set (scored_indices testData).
               \<exists>q qs. predictNextN p (take i testData) 1 = Inr (q # qs)) \<and>
           (\<exists>r. backtest (predictNextN p) testData strategy = Inr r \<and>
                truePositives r + falsePositives r = length testData - 51)"
    if dg: "set testData \<subseteq> {0 .. 9}"
  proof -
    have all: "\<forall>i \<in> set (scored_indices testData).
                 \<exists>q qs. predictNextN p (take i testData) 1 = Inr (q # qs)"
    proof
      fix i assume "i \<in> set (scored_indices testData)"
      then have i: "50 \<le> i" "i < length testData" by (auto simp: set_scored_indices)
      then have ne: "take i testData \<noteq> []" by auto
      have "last (take i testData) \<in> set testData"
        using ne by (meson in_set_takeD last_in_set)
      then have l: "last (take i testData) < 10" using dg by fastforce
      from predict_loop_total[OF wf ne l, of 1 1 "[]"]
      obtain ps where "predictNextN p (take i testData) 1 = Inr ps" "ps \<noteq> []"
        by (auto simp: predictNextN_def)
      then show "\<exists>q qs. predictNextN p (take i testData) 1 = Inr (q # qs)"
        by (cases ps) auto
    qed
    from backtest_loop_all_scored[of "scored_indices testData" "predictNextN p" testData
           strategy 0 0 "Fin 0", OF this]
    show ?thesis using all
      by (auto simp: backtest_def metrics_fields length_scored_indices)
  qed
  from first second show ?thesis by blast
qed

text \<open>
  The predictor built from the empty history, two steps after \<open>[3]\<close>, and a backtest
  on 53 observations: both scored iterations are counted.
\<close>

theorem predictNextN_never_empty_witness:
  "new_MultiStepPredictor [] =
     Inr \<lparr>patternRecognizer = new_NeuralPatternRecognizer, markovChain = zero_matrix\<rparr> \<and>
   [3::nat] \<noteq> [] \<and> set [3::nat] \<subseteq> {0 .. 9} \<and> (1::nat) \<le> 2 \<and>
   (\<exists>ps. predictNextN \<lparr>patternRecognizer = new_NeuralPatternRecognizer,
                        markovChain = zero_matrix\<rparr> [3] 2 = Inr ps \<and> ps \<noteq> [] \<and>
         (\<forall>k < length ps. digit (ps ! k) \<le> 9 \<and> step (ps ! k) = Suc k)) \<and>
   set (replicate 53 (3::nat)) \<subseteq> {0 .. 9} \<and>
   (\<exists>r. backtest (predictNextN \<lparr>patternRecognizer = new_NeuralPatternRecognizer,
                                 markovChain = zero_matrix\<rparr>) (replicate 53 3) Match = Inr r \<and>
        truePositives r + falsePositives r = 2)"
proof -
  let ?p = "\<lparr>patternRecognizer = new_NeuralPatternRecognizer, markovChain = zero_matrix\<rparr>"
  have built: "new_MultiStepPredictor [] = Inr ?p" by code_simp
  have a: "[3::nat] \<noteq> [] \<and> set [3::nat] \<subseteq> {0 .. 9} \<and> (1::nat) \<le> 2" by simp
  have b: "set (replicate 53 (3::nat)) \<subseteq> {0 .. 9}" by simp
  from predictNextN_never_empty[OF built, of "[3]" 2 "replicate 53 3" Match] a b built
  show ?thesis by simp
qed

text \<open>
  Claim C10 (queries leave the recognizer unchanged). The recognizer after
  \<open>detectPatterns\<close> and after \<open>predictNext\<close> is the recognizer before the call: the
  same table, with the same keys and the same patterns. \<open>train\<close> is the method that
  changes it: training a new recognizer on \<open>[1, 2]\<close> gives another recognizer.
\<close>

theorem recognizer_queries_read_only:
  "snd (detectPatterns r recentDigits minConfidence) = r \<and>
   snd (predictNext r recentDigits) = r \<and>
   train new_NeuralPatternRecognizer [1, 2] \<noteq> new_NeuralPatternRecognizer"
proof -
  have "patterns (train new_NeuralPatternRecognizer [1, 2]) \<noteq> []" by code_simp
  then have "train new_NeuralPatternRecognizer [1, 2] \<noteq> new_NeuralPatternRecognizer"
    by (auto simp: new_NeuralPatternRecognizer_def)
  then show ?thesis by (simp add: detectPatterns_def predictNext_def Let_def)
qed

end
